theory Spec2Isabelle
  imports Main
begin

section \<open>The LotteryFactory contract (token revision, 10 percent platform fee)\<close>

text \<open>
  The settlement core of the repository is the Solidity contract \<open>LotteryFactory\<close>.
  This theory embeds its storage, its modifiers and its public functions, and proves the
  properties of the settlement core over that embedding. The repository holds two
  revisions of the contract; the one embedded here is the later one, which is paid in USDC
  tokens, takes a platform fee of 10 percent at the first claim of a round, and is the one
  the tests and the front end address.

  Conventions of the embedding:
  \<^item> \<open>uint256\<close> and \<open>uint8\<close> values are natural numbers. Solidity 0.8 checks every
    addition and multiplication and aborts the call when the result exceeds
    \<open>2^256 - 1\<close>; the model writes that check out and aborts with \<open>Panic\<close>.
  \<^item> A Solidity \<open>mapping\<close> is a total function: every key has a value.
  \<^item> An address is a natural number; a \<open>bytes32\<close> value is the number its 32 bytes denote.
  \<^item> A function body is run on the storage and yields the storage it has written so far,
    together with the error it reverted with, if any. \<open>call\<close> is the transaction around
    the body: a revert discards everything the body wrote.
  \<^item> The USDC token is an external contract. What it answers (the allowance, the
    boolean a transfer returns, the balance of the contract) is part of the environment
    of a call. The transfers that the token has carried out for the contract are
    recorded in the field \<open>ledger\<close>, newest first.
  \<^item> \<open>keccak256\<close> is a parameter \<open>keccak\<close> of the functions that hash.
  \<^item> Events are not modelled: they do not influence the storage.
\<close>

subsection \<open>Data\<close>

type_synonym address = nat
type_synonym bytes32 = nat

datatype RoomState = OPEN | PENDING_REVEAL | REVEALED | CLOSED

record Room =
  id_Room :: nat
  name :: string
  description :: string
  entryFee :: nat
  drawTime :: nat
  prizePool :: nat
  encryptedWinningNumber :: bytes32
  winningNumber :: nat
  revealed :: bool
  state :: RoomState
  carryOverAmount :: nat
  roundNumber :: nat
  feesCollected :: bool
  revealTime :: nat

record Ticket =
  id_Ticket :: nat
  roomId :: nat
  player :: address
  number :: nat
  roundNumber_Ticket :: nat
  win :: bool

record PlayerStats =
  totalTickets :: nat
  totalWins :: nat
  totalClaimed :: nat
  roomTickets :: "nat \<Rightarrow> nat"
  roomWins :: "nat \<Rightarrow> nat"

datatype error =
    InvalidRoom | InvalidState | InvalidAmount | InvalidNumber | InvalidOwner
  | InvalidTicket | InvalidAddress | TransferFailed | AlreadyRevealed
  | BuyTicketAfterDrawTime | InvalidVerification | InsufficientAllowance
  | RoomNotResettable | GracePeriodNotPassed
  | InvalidRoomID
  | OwnableUnauthorizedAccount | EnforcedPause | ExpectedPause
  | Panic

text \<open>
  The first fourteen errors are the custom errors the contract declares.
  \<open>InvalidRoomID\<close> is the \<open>require\<close> of the modifier \<open>validRoom\<close>;
  \<open>OwnableUnauthorizedAccount\<close>, \<open>EnforcedPause\<close> and \<open>ExpectedPause\<close> are raised by the
  inherited \<open>Ownable\<close> and \<open>Pausable\<close>; \<open>Panic\<close> is the arithmetic check of the compiler.
\<close>

datatype tcall = TransferFrom address nat | Transfer address nat

text \<open>
  \<open>TransferFrom p a\<close>: the token moved \<open>a\<close> from \<open>p\<close> to the contract.
  \<open>Transfer p a\<close>: the token moved \<open>a\<close> from the contract to \<open>p\<close>.
\<close>

record lottery =
  rooms :: "nat \<Rightarrow> Room"
  playerTicketIds :: "nat \<Rightarrow> address \<Rightarrow> nat list"
  roomTicketsByRound :: "nat \<Rightarrow> nat \<Rightarrow> Ticket list"
  playerStats :: "address \<Rightarrow> PlayerStats"
  ticketClaimed :: "nat \<Rightarrow> nat \<Rightarrow> nat \<Rightarrow> bool"
  roomCount :: nat
  activeRoomIds :: "nat list"
  collectedFees :: nat
  owner :: address
  paused :: bool
  ledger :: "tcall list"

record env =
  sender :: address
  timestamp :: nat
  allowance :: nat
  transferOk :: bool
  balanceOfThis :: nat

text \<open>
  \<open>sender\<close> is \<open>msg.sender\<close>, \<open>timestamp\<close> is \<open>block.timestamp\<close>; \<open>allowance\<close> is what
  \<open>USDCToken.allowance(msg.sender, address(this))\<close> answers, \<open>transferOk\<close> the boolean
  that \<open>transferFrom\<close> or \<open>transfer\<close> returns, \<open>balanceOfThis\<close> what
  \<open>USDCToken.balanceOf(address(this))\<close> answers.
\<close>

definition PLATFORM_FEE :: nat where
  "PLATFORM_FEE = 10"

definition GRACE_PERIOD :: nat where
  "GRACE_PERIOD = 86400"

definition DECIMAL_CONVERSION :: nat where
  "DECIMAL_CONVERSION = 1000000000000"

definition max_uint256 :: nat where
  "max_uint256 = 2 ^ 256 - 1"

subsection \<open>Running a body, reverting, committing\<close>

type_synonym body = "lottery \<Rightarrow> error option \<times> lottery"

definition revert :: "error \<Rightarrow> body" where
  "revert err s = (Some err, s)"

definition finish :: body where
  "finish s = (None, s)"

definition call :: "body \<Rightarrow> lottery \<Rightarrow> error + lottery" where
  "call b s = (case b s of (None, s') \<Rightarrow> Inr s' | (Some err, s') \<Rightarrow> Inl err)"

definition persisted :: "body \<Rightarrow> lottery \<Rightarrow> lottery" where
  "persisted b s = (case call b s of Inl err \<Rightarrow> s | Inr s' \<Rightarrow> s')"

subsection \<open>Modifiers\<close>

text \<open>
  \<open>validRoom\<close> is declared in the contract. \<open>onlyOwner\<close>, \<open>whenNotPaused\<close> and \<open>whenPaused\<close>
  come with the inherited \<open>Ownable\<close> and \<open>Pausable\<close> of OpenZeppelin: they compare
  \<open>msg.sender\<close> with the owner, and test the pause flag, before the body runs. Modifiers run
  in the order in which the function lists them.
\<close>

definition onlyOwner :: "env \<Rightarrow> body \<Rightarrow> body" where
  "onlyOwner e b s = (if sender e \<noteq> owner s then revert OwnableUnauthorizedAccount s else b s)"

definition whenNotPaused :: "body \<Rightarrow> body" where
  "whenNotPaused b s = (if paused s then revert EnforcedPause s else b s)"

definition whenPaused :: "body \<Rightarrow> body" where
  "whenPaused b s = (if paused s then b s else revert ExpectedPause s)"

definition validRoom :: "nat \<Rightarrow> body \<Rightarrow> body" where
  "validRoom rid b s = (if rid < roomCount s then b s else revert InvalidRoomID s)"

text \<open>
  \<open>nonReentrant\<close> has no counterpart: a call of the model runs to its end before the
  next one starts, so the guard never fires.
\<close>

subsection \<open>Storage helpers\<close>

definition setRoom :: "nat \<Rightarrow> Room \<Rightarrow> lottery \<Rightarrow> lottery" where
  "setRoom rid r s = s\<lparr>rooms := (rooms s)(rid := r)\<rparr>"

definition setStats :: "address \<Rightarrow> PlayerStats \<Rightarrow> lottery \<Rightarrow> lottery" where
  "setStats p st s = s\<lparr>playerStats := (playerStats s)(p := st)\<rparr>"

definition setTickets :: "nat \<Rightarrow> nat \<Rightarrow> Ticket list \<Rightarrow> lottery \<Rightarrow> lottery" where
  "setTickets rid rnd ts s =
     s\<lparr>roomTicketsByRound := (roomTicketsByRound s)(rid := (roomTicketsByRound s rid)(rnd := ts))\<rparr>"

definition setClaimed :: "nat \<Rightarrow> nat \<Rightarrow> nat \<Rightarrow> bool \<Rightarrow> lottery \<Rightarrow> lottery" where
  "setClaimed rid rnd tid v s =
     s\<lparr>ticketClaimed := (ticketClaimed s)(rid := (ticketClaimed s rid)(rnd :=
          (ticketClaimed s rid rnd)(tid := v)))\<rparr>"

subsection \<open>createRoom, resetRoom\<close>

definition createRoom :: "env \<Rightarrow> string \<Rightarrow> string \<Rightarrow> nat \<Rightarrow> nat \<Rightarrow> bytes32 \<Rightarrow> body" where
  "createRoom e nm descr fee dt enc =
     onlyOwner e (whenNotPaused (\<lambda>s.
       if fee = 0 then revert InvalidAmount s
       else
         let adjustedEntryFee = fee div DECIMAL_CONVERSION in
         if adjustedEntryFee = 0 then revert InvalidAmount s
         else
           let rid = roomCount s;
               s1 = setRoom rid ((rooms s rid)\<lparr>
                      id_Room := rid, name := nm, description := descr,
                      entryFee := adjustedEntryFee, drawTime := dt, prizePool := 0,
                      encryptedWinningNumber := enc, revealed := False, state := OPEN,
                      carryOverAmount := 0, roundNumber := 1, feesCollected := False,
                      revealTime := 0\<rparr>) s;
               s2 = s1\<lparr>activeRoomIds := activeRoomIds s1 @ [rid]\<rparr>
           in if roomCount s2 + 1 > max_uint256 then revert Panic s2
              else finish (s2\<lparr>roomCount := roomCount s2 + 1\<rparr>)))"

definition resetRoom :: "env \<Rightarrow> nat \<Rightarrow> nat \<Rightarrow> bytes32 \<Rightarrow> body" where
  "resetRoom e rid dt enc =
     onlyOwner e (whenNotPaused (validRoom rid (\<lambda>s.
       let room = rooms s rid in
       if state room \<noteq> CLOSED \<and> state room \<noteq> REVEALED then revert RoomNotResettable s
       else
         let room1 = room\<lparr>drawTime := dt, encryptedWinningNumber := enc, revealed := False,
                          state := OPEN, winningNumber := 0\<rparr>
         in if roundNumber room1 + 1 > max_uint256 then revert Panic (setRoom rid room1 s)
            else
              let room2 = room1\<lparr>roundNumber := roundNumber room1 + 1,
                                feesCollected := False, revealTime := 0\<rparr>;
                  s1 = setRoom rid room2 s
              in if rid \<in> set (activeRoomIds s1) then finish s1
                 else finish (s1\<lparr>activeRoomIds := activeRoomIds s1 @ [rid]\<rparr>))))"

text \<open>
  The loop of \<open>resetRoom\<close> over \<open>activeRoomIds\<close> only decides whether \<open>roomId\<close> occurs in
  the array; that is the membership test above.
\<close>

subsection \<open>buyTicket\<close>

definition buyTicket :: "env \<Rightarrow> nat \<Rightarrow> nat \<Rightarrow> body" where
  "buyTicket e rid n =
     whenNotPaused (validRoom rid (\<lambda>s.
       let room = rooms s rid in
       if timestamp e \<ge> drawTime room
       then revert BuyTicketAfterDrawTime (setRoom rid (room\<lparr>state := PENDING_REVEAL\<rparr>) s)
       else if n > 99 then revert InvalidNumber s
       else if allowance e < entryFee room then revert InsufficientAllowance s
       else if \<not> transferOk e then revert TransferFailed s
       else
         let s1 = s\<lparr>ledger := TransferFrom (sender e) (entryFee room) # ledger s\<rparr>;
             prizeAmount = entryFee room;
             rnd = roundNumber room;
             ticketId = length (roomTicketsByRound s1 rid rnd);
             newTicket = \<lparr>id_Ticket = ticketId, roomId = rid, player = sender e,
                          number = n, roundNumber_Ticket = rnd, win = False\<rparr>;
             s2 = setTickets rid rnd (roomTicketsByRound s1 rid rnd @ [newTicket]) s1;
             s3 = s2\<lparr>playerTicketIds := (playerTicketIds s2)(rid :=
                       (playerTicketIds s2 rid)(sender e :=
                          playerTicketIds s2 rid (sender e) @ [ticketId]))\<rparr>;
             s4 = setClaimed rid rnd ticketId False s3
         in if prizePool room + prizeAmount > max_uint256 then revert Panic s4
            else
              let s5 = setRoom rid (room\<lparr>prizePool := prizePool room + prizeAmount\<rparr>) s4;
                  st = playerStats s5 (sender e)
              in if totalTickets st + 1 > max_uint256 \<or> roomTickets st rid + 1 > max_uint256
                 then revert Panic s5
                 else finish (setStats (sender e)
                        (st\<lparr>totalTickets := totalTickets st + 1,
                            roomTickets := (roomTickets st)(rid := roomTickets st rid + 1)\<rparr>) s5)))"

subsection \<open>verifyWinningNumber, revealWinningNumber\<close>

text \<open>
  \<open>abi.encodePacked\<close> of a \<open>uint8\<close>, a \<open>bytes32\<close>, a \<open>uint256\<close>, an \<open>address\<close> and a
  \<open>uint256\<close> is the concatenation of 1, 32, 32, 20 and 32 bytes; \<open>encodePacked\<close> is the
  number these 117 bytes denote (big-endian).
\<close>

definition encodePacked :: "nat \<Rightarrow> bytes32 \<Rightarrow> nat \<Rightarrow> address \<Rightarrow> nat \<Rightarrow> nat" where
  "encodePacked n pk rid ow rnd =
     (((n * 2 ^ 256 + pk) * 2 ^ 256 + rid) * 2 ^ 160 + ow) * 2 ^ 256 + rnd"

definition verifyWinningNumber :: "(nat \<Rightarrow> bytes32) \<Rightarrow> nat \<Rightarrow> bytes32 \<Rightarrow> nat \<Rightarrow> lottery \<Rightarrow> bool" where
  "verifyWinningNumber keccak rid pk n s =
     (let room = rooms s rid;
          calculatedHash = keccak (encodePacked n pk rid (owner s) (roundNumber room))
      in calculatedHash = encryptedWinningNumber room \<and> n \<le> 99)"

text \<open>
  The loop of \<open>revealWinningNumber\<close> over the tickets of the round: every ticket with the
  winning number gets \<open>win = true\<close> and its player one more win, in total and in the room.
  \<open>None\<close> is the arithmetic check failing on one of the counters.
\<close>

fun markWinners ::
  "nat \<Rightarrow> nat \<Rightarrow> Ticket list \<Rightarrow> (address \<Rightarrow> PlayerStats) \<Rightarrow>
     (Ticket list \<times> (address \<Rightarrow> PlayerStats)) option" where
  "markWinners rid w [] ps = Some ([], ps)"
| "markWinners rid w (t # ts) ps =
     (if number t = w then
        (let st = ps (player t) in
         if totalWins st + 1 > max_uint256 \<or> roomWins st rid + 1 > max_uint256 then None
         else
           (case markWinners rid w ts
                   (ps(player t := st\<lparr>totalWins := totalWins st + 1,
                                      roomWins := (roomWins st)(rid := roomWins st rid + 1)\<rparr>)) of
              None \<Rightarrow> None
            | Some (ts', ps') \<Rightarrow> Some (t\<lparr>win := True\<rparr> # ts', ps')))
      else
        (case markWinners rid w ts ps of
           None \<Rightarrow> None
         | Some (ts', ps') \<Rightarrow> Some (t # ts', ps')))"

definition revealWinningNumber :: "(nat \<Rightarrow> bytes32) \<Rightarrow> env \<Rightarrow> nat \<Rightarrow> bytes32 \<Rightarrow> nat \<Rightarrow> body" where
  "revealWinningNumber keccak e rid pk n =
     onlyOwner e (whenNotPaused (validRoom rid (\<lambda>s.
       let room = rooms s rid in
       if revealed room then revert AlreadyRevealed s
       else if \<not> verifyWinningNumber keccak rid pk n s then revert InvalidVerification s
       else
         let s1 = setRoom rid (room\<lparr>winningNumber := n, revealed := True, state := REVEALED,
                                    revealTime := timestamp e\<rparr>) s;
             rnd = roundNumber room
         in case markWinners rid n (roomTicketsByRound s1 rid rnd) (playerStats s1) of
              None \<Rightarrow> revert Panic s1
            | Some (ts', ps') \<Rightarrow> finish (setTickets rid rnd ts' (s1\<lparr>playerStats := ps'\<rparr>)))))"

subsection \<open>claimPrize\<close>

text \<open>The first loop of \<open>claimPrize\<close>: the number of tickets of the round whose number is the
  winning number.\<close>

fun winningTicketCount :: "nat \<Rightarrow> Ticket list \<Rightarrow> nat" where
  "winningTicketCount w [] = 0"
| "winningTicketCount w (t # ts) =
     (if number t = w then winningTicketCount w ts + 1 else winningTicketCount w ts)"

text \<open>The second loop: starting at index \<open>i\<close>, it stops with \<open>false\<close> at the first ticket that
  has the winning number and is not claimed.\<close>

fun allWinningTicketsClaimed :: "nat \<Rightarrow> (nat \<Rightarrow> bool) \<Rightarrow> nat \<Rightarrow> Ticket list \<Rightarrow> bool" where
  "allWinningTicketsClaimed w claimed i [] = True"
| "allWinningTicketsClaimed w claimed i (t # ts) =
     (if number t = w \<and> \<not> claimed i then False
      else allWinningTicketsClaimed w claimed (i + 1) ts)"

text \<open>The end of \<open>claimPrize\<close>, after the payout: the room is closed when every winning ticket
  of the round is claimed.\<close>

definition closeWhenAllClaimed :: "nat \<Rightarrow> nat \<Rightarrow> body" where
  "closeWhenAllClaimed rid cnt s =
     (let room = rooms s rid;
          roundTickets = roomTicketsByRound s rid (roundNumber room)
      in if allWinningTicketsClaimed (winningNumber room)
              (ticketClaimed s rid (roundNumber room)) 0 roundTickets
         then (if cnt = 0 then finish (setRoom rid (room\<lparr>state := CLOSED\<rparr>) s)
               else finish (setRoom rid (room\<lparr>prizePool := 0, state := CLOSED\<rparr>) s))
         else finish s)"

definition claimPrize :: "env \<Rightarrow> nat \<Rightarrow> nat \<Rightarrow> body" where
  "claimPrize e rid tid =
     whenNotPaused (validRoom rid (\<lambda>s.
       let room = rooms s rid;
           rnd = roundNumber room
       in
       if tid \<ge> length (roomTicketsByRound s rid rnd) then revert InvalidTicket s
       else
         let ticket = roomTicketsByRound s rid rnd ! tid in
         if roundNumber_Ticket ticket \<noteq> rnd then revert InvalidTicket s
         else if player ticket \<noteq> sender e then revert InvalidOwner s
         else if number ticket \<noteq> winningNumber room then revert InvalidTicket s
         else if ticketClaimed s rid rnd tid then revert InvalidTicket s
         else
           let s1 = setClaimed rid rnd tid True s;
               st = playerStats s1 (sender e)
           in if totalClaimed st + 1 > max_uint256 then revert Panic s1
              else
                let s2 = setStats (sender e) (st\<lparr>totalClaimed := totalClaimed st + 1\<rparr>) s1;
                    cnt = winningTicketCount (winningNumber room) (roomTicketsByRound s2 rid rnd)
                in if cnt > 0 then
                     (if prizePool room * PLATFORM_FEE > max_uint256 then revert Panic s2
                      else
                        let platformFee = (prizePool room * PLATFORM_FEE) div 100;
                            adjustedPrizePool = prizePool room - platformFee
                        in if \<not> feesCollected room \<and> collectedFees s2 + platformFee > max_uint256
                           then revert Panic s2
                           else
                             let s3 = (if \<not> feesCollected room
                                       then setRoom rid (room\<lparr>feesCollected := True\<rparr>)
                                              (s2\<lparr>collectedFees := collectedFees s2 + platformFee\<rparr>)
                                       else s2);
                                 prizeAmount = adjustedPrizePool div cnt
                             in if \<not> transferOk e then revert TransferFailed s3
                                else closeWhenAllClaimed rid cnt
                                       (s3\<lparr>ledger := Transfer (sender e) prizeAmount # ledger s3\<rparr>))
                   else closeWhenAllClaimed rid cnt s2))"

subsection \<open>Administration\<close>

definition emergencyPause :: "env \<Rightarrow> body" where
  "emergencyPause e = onlyOwner e (whenNotPaused (\<lambda>s. finish (s\<lparr>paused := True\<rparr>)))"

definition resumeOperations :: "env \<Rightarrow> body" where
  "resumeOperations e = onlyOwner e (whenPaused (\<lambda>s. finish (s\<lparr>paused := False\<rparr>)))"

definition withdrawFees :: "env \<Rightarrow> nat \<Rightarrow> body" where
  "withdrawFees e amount =
     onlyOwner e (\<lambda>s.
       let withdrawAmount = (if amount = 0 then collectedFees s else amount) in
       if withdrawAmount > collectedFees s then revert InvalidAmount s
       else
         let s1 = s\<lparr>collectedFees := collectedFees s - withdrawAmount\<rparr> in
         if \<not> transferOk e then revert TransferFailed s1
         else finish (s1\<lparr>ledger := Transfer (owner s1) withdrawAmount # ledger s1\<rparr>))"

definition emergencyWithdrawTokens :: "env \<Rightarrow> nat \<Rightarrow> body" where
  "emergencyWithdrawTokens e amount =
     onlyOwner e (\<lambda>s.
       if amount > balanceOfThis e then revert InvalidAmount s
       else if \<not> transferOk e then revert TransferFailed s
       else finish (s\<lparr>ledger := Transfer (owner s) amount # ledger s\<rparr>))"

definition forceCloseRoom :: "env \<Rightarrow> nat \<Rightarrow> body" where
  "forceCloseRoom e rid =
     onlyOwner e (validRoom rid (\<lambda>s.
       let room = rooms s rid in
       if state room \<noteq> REVEALED then revert InvalidState s
       else if revealTime room + GRACE_PERIOD > max_uint256 then revert Panic s
       else if timestamp e < revealTime room + GRACE_PERIOD then revert GracePeriodNotPassed s
       else finish (setRoom rid (room\<lparr>state := CLOSED\<rparr>) s)))"

subsection \<open>The public surface, and sequences of transactions\<close>

datatype op =
    CreateRoom string string nat nat bytes32
  | ResetRoom nat nat bytes32
  | BuyTicket nat nat
  | RevealWinningNumber nat bytes32 nat
  | ClaimPrize nat nat
  | EmergencyPause
  | ResumeOperations
  | WithdrawFees nat
  | EmergencyWithdrawTokens nat
  | ForceCloseRoom nat

fun run :: "(nat \<Rightarrow> bytes32) \<Rightarrow> env \<Rightarrow> op \<Rightarrow> body" where
  "run keccak e (CreateRoom nm descr fee dt enc) = createRoom e nm descr fee dt enc"
| "run keccak e (ResetRoom rid dt enc) = resetRoom e rid dt enc"
| "run keccak e (BuyTicket rid n) = buyTicket e rid n"
| "run keccak e (RevealWinningNumber rid pk n) = revealWinningNumber keccak e rid pk n"
| "run keccak e (ClaimPrize rid tid) = claimPrize e rid tid"
| "run keccak e EmergencyPause = emergencyPause e"
| "run keccak e ResumeOperations = resumeOperations e"
| "run keccak e (WithdrawFees amount) = withdrawFees e amount"
| "run keccak e (EmergencyWithdrawTokens amount) = emergencyWithdrawTokens e amount"
| "run keccak e (ForceCloseRoom rid) = forceCloseRoom e rid"

text \<open>A sequence of transactions: each one either commits or reverts, and the next one
  starts from the storage that persisted.\<close>

fun execute :: "(nat \<Rightarrow> bytes32) \<Rightarrow> (env \<times> op) list \<Rightarrow> lottery \<Rightarrow> lottery" where
  "execute keccak [] s = s"
| "execute keccak ((e, x) # xs) s = execute keccak xs (persisted (run keccak e x) s)"

text \<open>The storage right after deployment by \<open>deployer\<close>: every mapping is at its zero value.\<close>

definition zeroRoom :: Room where
  "zeroRoom = \<lparr>id_Room = 0, name = [], description = [], entryFee = 0, drawTime = 0,
     prizePool = 0, encryptedWinningNumber = 0, winningNumber = 0, revealed = False,
     state = OPEN, carryOverAmount = 0, roundNumber = 0, feesCollected = False,
     revealTime = 0\<rparr>"

definition zeroStats :: PlayerStats where
  "zeroStats = \<lparr>totalTickets = 0, totalWins = 0, totalClaimed = 0,
     roomTickets = (\<lambda>_. 0), roomWins = (\<lambda>_. 0)\<rparr>"

definition deploy :: "address \<Rightarrow> lottery" where
  "deploy deployer = \<lparr>rooms = (\<lambda>_. zeroRoom), playerTicketIds = (\<lambda>_ _. []),
     roomTicketsByRound = (\<lambda>_ _. []), playerStats = (\<lambda>_. zeroStats),
     ticketClaimed = (\<lambda>_ _ _. False), roomCount = 0, activeRoomIds = [],
     collectedFees = 0, owner = deployer, paused = False, ledger = []\<rparr>"

subsection \<open>Quantities the properties speak about\<close>

text \<open>The five guards at the head of \<open>claimPrize\<close>, all passed.\<close>

definition passesGuards :: "env \<Rightarrow> nat \<Rightarrow> nat \<Rightarrow> lottery \<Rightarrow> bool" where
  "passesGuards e rid tid s =
     (let room = rooms s rid;
          rnd = roundNumber room;
          ts = roomTicketsByRound s rid rnd
      in tid < length ts \<and> roundNumber_Ticket (ts ! tid) = rnd \<and> player (ts ! tid) = sender e
         \<and> number (ts ! tid) = winningNumber room \<and> \<not> ticketClaimed s rid rnd tid)"

text \<open>What \<open>claimPrize\<close> computes as \<open>prizeAmount\<close> in the storage \<open>s\<close>.\<close>

definition payout :: "nat \<Rightarrow> lottery \<Rightarrow> nat" where
  "payout rid s =
     (let room = rooms s rid;
          platformFee = (prizePool room * PLATFORM_FEE) div 100
      in (prizePool room - platformFee)
           div winningTicketCount (winningNumber room) (roomTicketsByRound s rid (roundNumber room)))"

text \<open>The total the token has moved out of the contract.\<close>

fun paidOut :: "tcall list \<Rightarrow> nat" where
  "paidOut [] = 0"
| "paidOut (Transfer p a # cs) = a + paidOut cs"
| "paidOut (TransferFrom p a # cs) = paidOut cs"

text \<open>The number of tickets, from index \<open>i\<close> on, that have the winning number and are
  marked as claimed; \<open>claimedWinners\<close> is that number for the current round of a room.\<close>

fun claimedCount :: "nat \<Rightarrow> (nat \<Rightarrow> bool) \<Rightarrow> nat \<Rightarrow> Ticket list \<Rightarrow> nat" where
  "claimedCount w claimed i [] = 0"
| "claimedCount w claimed i (t # ts) =
     (if number t = w \<and> claimed i then claimedCount w claimed (i + 1) ts + 1
      else claimedCount w claimed (i + 1) ts)"

definition claimedWinners :: "nat \<Rightarrow> lottery \<Rightarrow> nat" where
  "claimedWinners rid s =
     (let room = rooms s rid
      in claimedCount (winningNumber room) (ticketClaimed s rid (roundNumber room)) 0
           (roomTicketsByRound s rid (roundNumber room)))"

text \<open>A sequence of \<open>claimPrize\<close> transactions on one room, by any callers, for any
  ticket identifiers, with any answers of the token.\<close>

fun claimAll :: "nat \<Rightarrow> (env \<times> nat) list \<Rightarrow> lottery \<Rightarrow> lottery" where
  "claimAll rid [] s = s"
| "claimAll rid ((e, tid) # cs) s = claimAll rid cs (persisted (claimPrize e rid tid) s)"

text \<open>The invariant of such a sequence, relative to the storage \<open>s0\<close> it started from.\<close>

definition settlement :: "nat \<Rightarrow> lottery \<Rightarrow> lottery \<Rightarrow> bool" where
  "settlement rid s0 s =
     (let room0 = rooms s0 rid;
          room = rooms s rid;
          k = winningTicketCount (winningNumber room0)
                (roomTicketsByRound s0 rid (roundNumber room0));
          j = claimedWinners rid s;
          fee = (prizePool room0 * PLATFORM_FEE) div 100
      in winningNumber room = winningNumber room0
         \<and> roundNumber room = roundNumber room0
         \<and> roomTicketsByRound s rid (roundNumber room0)
             = roomTicketsByRound s0 rid (roundNumber room0)
         \<and> paidOut (ledger s) = paidOut (ledger s0) + j * payout rid s0
         \<and> collectedFees s = collectedFees s0 + (if j = 0 then 0 else fee)
         \<and> (if j < k then prizePool room = prizePool room0 \<and> feesCollected room = (j \<noteq> 0)
             else prizePool room = 0 \<and> state room = CLOSED))"

text \<open>Every stored ticket has a number of at most 99.\<close>

definition inRange :: "lottery \<Rightarrow> bool" where
  "inRange s = (\<forall>rid rnd. \<forall>t \<in> set (roomTicketsByRound s rid rnd). number t \<le> 99)"

text \<open>Room \<open>rid\<close> exists and its round \<open>r\<close> is revealed or over.\<close>

definition revealedIn :: "nat \<Rightarrow> nat \<Rightarrow> lottery \<Rightarrow> bool" where
  "revealedIn rid r s =
     (rid < roomCount s \<and> (r < roundNumber (rooms s rid)
        \<or> (roundNumber (rooms s rid) = r \<and> revealed (rooms s rid))))"

subsection \<open>Example runs\<close>

text \<open>
  In the runs below account 1 deploys the contract and is its owner; accounts 2 to 5 are
  players. The token grants every pull and every push. \<open>keccak\<close> is the identity, so the
  commitment of a room is the packed encoding itself. Entry fees are given to
  \<open>createRoom\<close> with 18 decimals and stored with 6.
\<close>

definition caller :: "address \<Rightarrow> nat \<Rightarrow> env" where
  "caller a t = \<lparr>sender = a, timestamp = t, allowance = 1000, transferOk = True, balanceOfThis = 0\<rparr>"

text \<open>Entry fee 10, draw time 1000, committed number 42 with secret 7; four tickets
  15, 27, 42, 89.\<close>

definition fourTickets :: "(env \<times> op) list" where
  "fourTickets =
     [(caller 1 0, CreateRoom ''room'' ''four tickets'' 10000000000000 1000 (encodePacked 42 7 0 1 1)),
      (caller 2 10, BuyTicket 0 15),
      (caller 3 20, BuyTicket 0 27),
      (caller 4 30, BuyTicket 0 42),
      (caller 5 40, BuyTicket 0 89)]"

definition fourTicketsSold :: lottery where
  "fourTicketsSold = execute (\<lambda>x. x) fourTickets (deploy 1)"

definition fourTicketsRevealed :: lottery where
  "fourTicketsRevealed =
     execute (\<lambda>x. x) (fourTickets @ [(caller 1 1000, RevealWinningNumber 0 7 42)]) (deploy 1)"

text \<open>Entry fee 50; two players both pick 42; the pool is 100 at the reveal.\<close>

definition twoWinners :: lottery where
  "twoWinners = execute (\<lambda>x. x)
     [(caller 1 0, CreateRoom ''room'' ''two winners'' 50000000000000 1000 (encodePacked 42 7 0 1 1)),
      (caller 2 10, BuyTicket 0 42),
      (caller 3 20, BuyTicket 0 42),
      (caller 1 1000, RevealWinningNumber 0 7 42)] (deploy 1)"

text \<open>Only the first winner claims; a day after the reveal the owner closes the room.\<close>

definition oneClaimThenClosed :: lottery where
  "oneClaimThenClosed = execute (\<lambda>x. x)
     [(caller 2 1010, ClaimPrize 0 0),
      (caller 1 87400, ForceCloseRoom 0)] twoWinners"

text \<open>One ticket, 15, against the winning number 42: a round without a winner.\<close>

definition noWinner :: lottery where
  "noWinner = execute (\<lambda>x. x)
     [(caller 1 0, CreateRoom ''room'' ''no winner'' 10000000000000 1000 (encodePacked 42 7 0 1 1)),
      (caller 2 10, BuyTicket 0 15),
      (caller 1 1000, RevealWinningNumber 0 7 42)] (deploy 1)"

text \<open>The owner reveals at time 20, long before the draw time 1000.\<close>

definition earlyReveal :: lottery where
  "earlyReveal = execute (\<lambda>x. x)
     [(caller 1 0, CreateRoom ''room'' ''early reveal'' 10000000000000 1000 (encodePacked 42 7 0 1 1)),
      (caller 2 10, BuyTicket 0 15),
      (caller 1 20, RevealWinningNumber 0 7 42)] (deploy 1)"

section \<open>Auxiliary facts\<close>

lemmas tx_defs = call_def persisted_def revert_def finish_def
lemmas modifier_defs = onlyOwner_def whenNotPaused_def whenPaused_def validRoom_def
lemmas store_defs = setRoom_def setStats_def setTickets_def setClaimed_def
lemmas admin_defs = createRoom_def resetRoom_def emergencyPause_def resumeOperations_def
  withdrawFees_def emergencyWithdrawTokens_def forceCloseRoom_def
lemmas eval_defs = tx_defs modifier_defs store_defs createRoom_def buyTicket_def
  revealWinningNumber_def verifyWinningNumber_def claimPrize_def closeWhenAllClaimed_def
  forceCloseRoom_def resetRoom_def withdrawFees_def deploy_def zeroRoom_def zeroStats_def
  caller_def Let_def DECIMAL_CONVERSION_def max_uint256_def PLATFORM_FEE_def GRACE_PERIOD_def

subsection \<open>Transactions\<close>

lemma persisted_cases:
  obtains (reverted) err where "call b s = Inl err" "persisted b s = s"
        | (committed) s' where "call b s = Inr s'" "persisted b s = s'"
  by (cases "call b s") (auto simp: persisted_def)

lemma call_persisted: "fst (b s) = None \<Longrightarrow> call b s = Inr (persisted b s)"
  by (cases "b s") (auto simp: call_def persisted_def)

subsection \<open>What a committed call has done\<close>

lemma winningTicketCount_pos:
  "tid < length ts \<Longrightarrow> number (ts ! tid) = w \<Longrightarrow> 1 \<le> winningTicketCount w ts"
proof (induction ts arbitrary: tid)
  case Nil
  then show ?case by simp
next
  case (Cons t ts)
  then show ?case by (cases tid) auto
qed

lemma claimPrize_guards:
  assumes "call (claimPrize e rid tid) s = Inr s'"
  shows "passesGuards e rid tid s \<and> \<not> paused s \<and> rid < roomCount s"
  using assms
  by (auto simp: claimPrize_def passesGuards_def tx_defs modifier_defs Let_def split: if_splits)

lemma claimPrize_success:
  assumes "call (claimPrize e rid tid) s = Inr s'"
  shows "ledger s' = Transfer (sender e) (payout rid s) # ledger s"
    and "collectedFees s' = (if feesCollected (rooms s rid) then collectedFees s
            else collectedFees s + (prizePool (rooms s rid) * PLATFORM_FEE) div 100)"
    and "ticketClaimed s' = ticketClaimed (setClaimed rid (roundNumber (rooms s rid)) tid True s)"
    and "roomTicketsByRound s' = roomTicketsByRound s"
    and "roomCount s' = roomCount s" and "owner s' = owner s" and "paused s' = paused s"
    and "rid' \<noteq> rid \<Longrightarrow> rooms s' rid' = rooms s rid'"
    and "rooms s' rid =
           (if allWinningTicketsClaimed (winningNumber (rooms s rid))
                 (ticketClaimed s' rid (roundNumber (rooms s rid))) 0
                 (roomTicketsByRound s rid (roundNumber (rooms s rid)))
            then (rooms s rid)\<lparr>feesCollected := True, prizePool := 0, state := CLOSED\<rparr>
            else (rooms s rid)\<lparr>feesCollected := True\<rparr>)"
proof -
  have g: "passesGuards e rid tid s" "\<not> paused s" "rid < roomCount s"
    using claimPrize_guards[OF assms] by auto
  then have pos: "0 < winningTicketCount (winningNumber (rooms s rid))
                   (roomTicketsByRound s rid (roundNumber (rooms s rid)))"
    using winningTicketCount_pos[of tid "roomTicketsByRound s rid (roundNumber (rooms s rid))"]
    by (auto simp: passesGuards_def Let_def)
  note defs = claimPrize_def closeWhenAllClaimed_def payout_def passesGuards_def tx_defs modifier_defs store_defs Let_def
  show "ledger s' = Transfer (sender e) (payout rid s) # ledger s"
    using assms g pos by (auto simp: defs split: if_splits)
  show "collectedFees s' = (if feesCollected (rooms s rid) then collectedFees s
            else collectedFees s + (prizePool (rooms s rid) * PLATFORM_FEE) div 100)"
    using assms g pos by (auto simp: defs split: if_splits)
  show "ticketClaimed s' = ticketClaimed (setClaimed rid (roundNumber (rooms s rid)) tid True s)"
    using assms g pos by (auto simp: defs split: if_splits)
  show "roomTicketsByRound s' = roomTicketsByRound s"
    using assms g pos by (auto simp: defs split: if_splits)
  show "roomCount s' = roomCount s" "owner s' = owner s" "paused s' = paused s"
    using assms g pos by (auto simp: defs split: if_splits)
  show "rid' \<noteq> rid \<Longrightarrow> rooms s' rid' = rooms s rid'"
    using assms g pos by (auto simp: defs split: if_splits)
  show "rooms s' rid =
           (if allWinningTicketsClaimed (winningNumber (rooms s rid))
                 (ticketClaimed s' rid (roundNumber (rooms s rid))) 0
                 (roomTicketsByRound s rid (roundNumber (rooms s rid)))
            then (rooms s rid)\<lparr>feesCollected := True, prizePool := 0, state := CLOSED\<rparr>
            else (rooms s rid)\<lparr>feesCollected := True\<rparr>)"
    using assms g pos by (auto simp: defs split: if_splits)
qed

lemma claimPrize_refused:
  assumes "call (claimPrize e rid tid) s = Inr s'"
  shows "fst (claimPrize (e\<lparr>transferOk := False\<rparr>) rid tid s) = Some TransferFailed"
    and "ticketClaimed (snd (claimPrize (e\<lparr>transferOk := False\<rparr>) rid tid s)) rid
           (roundNumber (rooms s rid)) tid"
proof -
  have g: "passesGuards e rid tid s" "\<not> paused s" "rid < roomCount s"
    using claimPrize_guards[OF assms] by auto
  then have pos: "0 < winningTicketCount (winningNumber (rooms s rid))
                   (roomTicketsByRound s rid (roundNumber (rooms s rid)))"
    using winningTicketCount_pos[of tid "roomTicketsByRound s rid (roundNumber (rooms s rid))"]
    by (auto simp: passesGuards_def Let_def)
  note defs = claimPrize_def passesGuards_def tx_defs modifier_defs store_defs Let_def
  show "fst (claimPrize (e\<lparr>transferOk := False\<rparr>) rid tid s) = Some TransferFailed"
    using assms g pos by (auto simp: defs split: if_splits)
  show "ticketClaimed (snd (claimPrize (e\<lparr>transferOk := False\<rparr>) rid tid s)) rid
           (roundNumber (rooms s rid)) tid"
    using assms g pos by (auto simp: defs split: if_splits)
qed

lemma claimPrize_repeat:
  assumes "tid < length (roomTicketsByRound s rid (roundNumber (rooms s rid)))"
    and "ticketClaimed s rid (roundNumber (rooms s rid)) tid"
    and "rid < roomCount s"
  shows "\<exists>err. call (claimPrize e rid tid) s = Inl err
           \<and> (\<not> paused s \<and> sender e = player (roomTicketsByRound s rid (roundNumber (rooms s rid)) ! tid)
                \<longrightarrow> err = InvalidTicket)"
  using assms
  by (auto simp: claimPrize_def tx_defs modifier_defs Let_def)

lemma buyTicket_success:
  assumes "call (buyTicket e rid n) s = Inr s'"
  shows "n \<le> 99" "timestamp e < drawTime (rooms s rid)" "\<not> paused s" "rid < roomCount s"
    and "roomTicketsByRound s' =
           (roomTicketsByRound s)(rid := (roomTicketsByRound s rid)(roundNumber (rooms s rid) :=
              roomTicketsByRound s rid (roundNumber (rooms s rid)) @
                [\<lparr>id_Ticket = length (roomTicketsByRound s rid (roundNumber (rooms s rid))),
                  roomId = rid, player = sender e, number = n,
                  roundNumber_Ticket = roundNumber (rooms s rid), win = False\<rparr>]))"
    and "ticketClaimed s' = ticketClaimed (setClaimed rid (roundNumber (rooms s rid))
            (length (roomTicketsByRound s rid (roundNumber (rooms s rid)))) False s)"
    and "roomCount s' = roomCount s" and "owner s' = owner s" and "paused s' = paused s"
    and "rooms s' = (rooms s)(rid := (rooms s rid)\<lparr>prizePool := prizePool (rooms s rid) + entryFee (rooms s rid)\<rparr>)"
    and "collectedFees s' = collectedFees s"
    and "ledger s' = TransferFrom (sender e) (entryFee (rooms s rid)) # ledger s"
  using assms
  by (auto simp: buyTicket_def tx_defs modifier_defs store_defs Let_def split: if_splits)

lemma revealWinningNumber_success:
  assumes "call (revealWinningNumber k e rid pk n) s = Inr s'"
  shows "sender e = owner s" "\<not> paused s" "rid < roomCount s" "\<not> revealed (rooms s rid)"
        "verifyWinningNumber k rid pk n s"
    and "\<exists>ts' ps'. markWinners rid n (roomTicketsByRound s rid (roundNumber (rooms s rid))) (playerStats s) = Some (ts', ps')
           \<and> roomTicketsByRound s' = (roomTicketsByRound s)(rid := (roomTicketsByRound s rid)(roundNumber (rooms s rid) := ts'))"
    and "ticketClaimed s' = ticketClaimed s"
    and "roomCount s' = roomCount s" and "owner s' = owner s" and "paused s' = paused s"
    and "rooms s' = (rooms s)(rid := (rooms s rid)\<lparr>winningNumber := n, revealed := True,
            state := REVEALED, revealTime := timestamp e\<rparr>)"
    and "collectedFees s' = collectedFees s"
    and "ledger s' = ledger s"
  using assms
  by (auto simp: revealWinningNumber_def tx_defs modifier_defs store_defs Let_def split: if_splits option.splits)

subsection \<open>The loop of the reveal keeps numbers and players\<close>

lemma markWinners_frame:
  "markWinners rid w ts ps = Some (ts', ps') \<Longrightarrow>
     map number ts' = map number ts \<and> map player ts' = map player ts
     \<and> map roundNumber_Ticket ts' = map roundNumber_Ticket ts"
proof (induction ts arbitrary: ps ts' ps')
  case Nil
  then show ?case by simp
next
  case (Cons t ts)
  then show ?case
    by (auto simp: Let_def split: if_splits option.splits)
qed

lemma map_eq_nth: "map f xs = map f ys \<Longrightarrow> i < length ys \<Longrightarrow> f (xs ! i) = f (ys ! i)"
  by (metis length_map nth_map)

lemma markWinners_length: "markWinners rid w ts ps = Some (ts', ps') \<Longrightarrow> length ts' = length ts"
  using markWinners_frame map_eq_imp_length_eq by blast

lemma markWinners_nth:
  assumes "markWinners rid w ts ps = Some (ts', ps')" "i < length ts"
  shows "number (ts' ! i) = number (ts ! i)" "player (ts' ! i) = player (ts ! i)"
  using markWinners_frame[OF assms(1)] assms(2) map_eq_nth by blast+

lemma markWinners_numbers:
  assumes "markWinners rid w ts ps = Some (ts', ps')"
  shows "number ` set ts' = number ` set ts"
  using markWinners_frame[OF assms] by (metis set_map)

subsection \<open>One transaction: tickets, claim flags, rooms\<close>

lemma admin_tickets:
  assumes "\<And>rid n. x \<noteq> BuyTicket rid n" "\<And>rid pk n. x \<noteq> RevealWinningNumber rid pk n"
          "\<And>rid tid. x \<noteq> ClaimPrize rid tid"
  shows "roomTicketsByRound (persisted (run k e x) s) = roomTicketsByRound s"
    and "ticketClaimed (persisted (run k e x) s) = ticketClaimed s"
    and "ledger (persisted (run k e x) s) = ledger s \<or> (\<exists>a. ledger (persisted (run k e x) s) = Transfer (owner s) a # ledger s)"
  using assms
  by (cases x; auto simp: admin_defs tx_defs modifier_defs store_defs Let_def split: if_splits)+

lemma step_roomCount: "roomCount s \<le> roomCount (persisted (run k e x) s)"
proof (cases x)
  case (BuyTicket rid n)
  then show ?thesis
    by (cases rule: persisted_cases[of "buyTicket e rid n" s]) (auto dest: buyTicket_success(7))
next
  case (RevealWinningNumber rid pk n)
  then show ?thesis
    by (cases rule: persisted_cases[of "revealWinningNumber k e rid pk n" s])
       (auto dest: revealWinningNumber_success(8))
next
  case (ClaimPrize rid tid)
  then show ?thesis
    by (cases rule: persisted_cases[of "claimPrize e rid tid" s]) (auto dest: claimPrize_success(5))
qed (auto simp: admin_defs tx_defs modifier_defs store_defs Let_def split: if_splits)

lemma step_tickets:
  assumes "i < length (roomTicketsByRound s rid rnd)"
  shows "i < length (roomTicketsByRound (persisted (run k e x) s) rid rnd)
       \<and> player (roomTicketsByRound (persisted (run k e x) s) rid rnd ! i)
           = player (roomTicketsByRound s rid rnd ! i)
       \<and> number (roomTicketsByRound (persisted (run k e x) s) rid rnd ! i)
           = number (roomTicketsByRound s rid rnd ! i)"
proof (cases x)
  case (BuyTicket rid' n)
  show ?thesis
  proof (cases rule: persisted_cases[of "buyTicket e rid' n" s])
    case (reverted err)
    then show ?thesis using BuyTicket assms by simp
  next
    case (committed s')
    then show ?thesis using BuyTicket assms buyTicket_success(5)[OF committed(1)]
      by (auto simp: nth_append)
  qed
next
  case (RevealWinningNumber rid' pk n)
  show ?thesis
  proof (cases rule: persisted_cases[of "revealWinningNumber k e rid' pk n" s])
    case (reverted err)
    then show ?thesis using RevealWinningNumber assms by simp
  next
    case (committed s')
    then obtain ts' ps' where
      m: "markWinners rid' n (roomTicketsByRound s rid' (roundNumber (rooms s rid'))) (playerStats s)
            = Some (ts', ps')"
      and t: "roomTicketsByRound s' = (roomTicketsByRound s)(rid' :=
               (roomTicketsByRound s rid')(roundNumber (rooms s rid') := ts'))"
      using revealWinningNumber_success(6) by blast
    show ?thesis
      using RevealWinningNumber assms committed(2) t markWinners_length[OF m] markWinners_nth[OF m]
      by auto
  qed
next
  case (ClaimPrize rid' tid)
  then show ?thesis using assms
    by (cases rule: persisted_cases[of "claimPrize e rid' tid" s]) (auto dest: claimPrize_success(4))
qed (use assms admin_tickets[of x k e s] in auto)

lemma step_claimed:
  assumes "i < length (roomTicketsByRound s rid rnd)" "ticketClaimed s rid rnd i"
  shows "ticketClaimed (persisted (run k e x) s) rid rnd i"
proof (cases x)
  case (BuyTicket rid' n)
  show ?thesis
  proof (cases rule: persisted_cases[of "buyTicket e rid' n" s])
    case (reverted err)
    then show ?thesis using BuyTicket assms by simp
  next
    case (committed s')
    then show ?thesis using BuyTicket assms buyTicket_success(6)[OF committed(1)]
      by (auto simp: store_defs)
  qed
next
  case (RevealWinningNumber rid' pk n)
  then show ?thesis using assms
    by (cases rule: persisted_cases[of "revealWinningNumber k e rid' pk n" s])
       (auto dest: revealWinningNumber_success(7))
next
  case (ClaimPrize rid' tid)
  show ?thesis
  proof (cases rule: persisted_cases[of "claimPrize e rid' tid" s])
    case (reverted err)
    then show ?thesis using ClaimPrize assms by simp
  next
    case (committed s')
    then show ?thesis using ClaimPrize assms claimPrize_success(3)[OF committed(1)]
      by (auto simp: store_defs)
  qed
qed (use assms admin_tickets[of x k e s] in auto)

lemma step_inRange:
  assumes "inRange s"
  shows "inRange (persisted (run k e x) s)"
proof (cases x)
  case (BuyTicket rid' n)
  show ?thesis
  proof (cases rule: persisted_cases[of "buyTicket e rid' n" s])
    case (reverted err)
    then show ?thesis using BuyTicket assms by simp
  next
    case (committed s')
    then show ?thesis
      using BuyTicket assms buyTicket_success(1)[OF committed(1)] buyTicket_success(5)[OF committed(1)]
      by (auto simp: inRange_def)
  qed
next
  case (RevealWinningNumber rid' pk n)
  show ?thesis
  proof (cases rule: persisted_cases[of "revealWinningNumber k e rid' pk n" s])
    case (reverted err)
    then show ?thesis using RevealWinningNumber assms by simp
  next
    case (committed s')
    then obtain ts' ps' where
      m: "markWinners rid' n (roomTicketsByRound s rid' (roundNumber (rooms s rid'))) (playerStats s)
            = Some (ts', ps')"
      and t: "roomTicketsByRound s' = (roomTicketsByRound s)(rid' :=
               (roomTicketsByRound s rid')(roundNumber (rooms s rid') := ts'))"
      using revealWinningNumber_success(6) by blast
    have "\<forall>t \<in> set ts'. number t \<le> 99"
    proof
      fix t assume "t \<in> set ts'"
      then have "number t \<in> number ` set (roomTicketsByRound s rid' (roundNumber (rooms s rid')))"
        using markWinners_numbers[OF m] by blast
      then obtain t0 where "t0 \<in> set (roomTicketsByRound s rid' (roundNumber (rooms s rid')))"
        "number t0 = number t" by auto
      then show "number t \<le> 99" using assms unfolding inRange_def by metis
    qed
    then show ?thesis
      using RevealWinningNumber assms committed(2) t by (auto simp: inRange_def)
  qed
next
  case (ClaimPrize rid' tid)
  then show ?thesis using assms
    by (cases rule: persisted_cases[of "claimPrize e rid' tid" s])
       (auto dest: claimPrize_success(4) simp: inRange_def)
qed (use assms admin_tickets(1)[of x k e s] in \<open>auto simp: inRange_def\<close>)

lemma step_revealedIn:
  assumes "revealedIn rid r s"
  shows "revealedIn rid r (persisted (run k e x) s)"
proof (cases x)
  case (BuyTicket rid' n)
  show ?thesis
  proof (cases rule: persisted_cases[of "buyTicket e rid' n" s])
    case (reverted err)
    then show ?thesis using BuyTicket assms by simp
  next
    case (committed s')
    note f = buyTicket_success[OF committed(1)]
    show ?thesis using BuyTicket assms committed(2) f(7,10) by (auto simp: revealedIn_def)
  qed
next
  case (RevealWinningNumber rid' pk n)
  show ?thesis
  proof (cases rule: persisted_cases[of "revealWinningNumber k e rid' pk n" s])
    case (reverted err)
    then show ?thesis using RevealWinningNumber assms by simp
  next
    case (committed s')
    note f = revealWinningNumber_success[OF committed(1)]
    show ?thesis using RevealWinningNumber assms committed(2) f(8,11) by (auto simp: revealedIn_def)
  qed
next
  case (ClaimPrize rid' tid)
  show ?thesis
  proof (cases rule: persisted_cases[of "claimPrize e rid' tid" s])
    case (reverted err)
    then show ?thesis using ClaimPrize assms by simp
  next
    case (committed s')
    note f = claimPrize_success[OF committed(1)]
    have "roundNumber (rooms s' rid) = roundNumber (rooms s rid)"
         "revealed (rooms s' rid) = revealed (rooms s rid)"
      using f(8)[of rid] f(9) by (cases "rid = rid'"; auto split: if_splits)+
    then show ?thesis using ClaimPrize assms committed(2) f(5) by (simp add: revealedIn_def)
  qed
qed (use assms in \<open>auto simp: revealedIn_def admin_defs tx_defs modifier_defs store_defs Let_def split: if_splits\<close>)

subsection \<open>Sequences of transactions\<close>

lemma execute_claimed:
  assumes "tid < length (roomTicketsByRound s rid rnd)" "ticketClaimed s rid rnd tid"
  shows "tid < length (roomTicketsByRound (execute k xs s) rid rnd)
       \<and> ticketClaimed (execute k xs s) rid rnd tid
       \<and> player (roomTicketsByRound (execute k xs s) rid rnd ! tid)
           = player (roomTicketsByRound s rid rnd ! tid)
       \<and> number (roomTicketsByRound (execute k xs s) rid rnd ! tid)
           = number (roomTicketsByRound s rid rnd ! tid)
       \<and> roomCount s \<le> roomCount (execute k xs s)"
  using assms
proof (induction xs arbitrary: s)
  case Nil
  then show ?case by simp
next
  case (Cons a xs)
  obtain e x where a: "a = (e, x)" by (cases a)
  let ?s = "persisted (run k e x) s"
  have 1: "tid < length (roomTicketsByRound ?s rid rnd)"
       "player (roomTicketsByRound ?s rid rnd ! tid) = player (roomTicketsByRound s rid rnd ! tid)"
       "number (roomTicketsByRound ?s rid rnd ! tid) = number (roomTicketsByRound s rid rnd ! tid)"
    using step_tickets[OF Cons.prems(1)] by auto
  have 2: "ticketClaimed ?s rid rnd tid"
    using step_claimed[OF Cons.prems] .
  have 3: "roomCount s \<le> roomCount ?s" by (rule step_roomCount)
  show ?case using Cons.IH[OF 1(1) 2] 1 3 a by simp
qed

lemma execute_inRange: "inRange s \<Longrightarrow> inRange (execute k xs s)"
proof (induction xs arbitrary: s)
  case Nil
  then show ?case by simp
next
  case (Cons a xs)
  obtain e x where "a = (e, x)" by (cases a)
  then show ?case using Cons.IH[OF step_inRange[OF Cons.prems, of k e x]] by simp
qed

lemma deploy_inRange: "inRange (deploy d)"
  by (simp add: inRange_def deploy_def)

lemma execute_revealedIn: "revealedIn rid r s \<Longrightarrow> revealedIn rid r (execute k xs s)"
proof (induction xs arbitrary: s)
  case Nil
  then show ?case by simp
next
  case (Cons a xs)
  obtain e x where "a = (e, x)" by (cases a)
  then show ?case using Cons.IH[OF step_revealedIn[OF Cons.prems, of k e x]] by simp
qed

subsection \<open>Counting claimed winners\<close>

lemma claimedCount_le: "claimedCount w cl i ts \<le> winningTicketCount w ts"
  by (induction ts arbitrary: i) (auto intro: le_SucI)

lemma allClaimed_iff:
  "allWinningTicketsClaimed w cl i ts \<longleftrightarrow> claimedCount w cl i ts = winningTicketCount w ts"
proof (induction ts arbitrary: i)
  case Nil
  then show ?case by simp
next
  case (Cons t ts)
  have "claimedCount w cl (Suc i) ts \<le> winningTicketCount w ts" by (rule claimedCount_le)
  with Cons show ?case by auto
qed

lemma claimedCount_cong:
  "(\<And>j. i \<le> j \<Longrightarrow> cl' j = cl j) \<Longrightarrow> claimedCount w cl' i ts = claimedCount w cl i ts"
proof (induction ts arbitrary: i)
  case Nil
  then show ?case by simp
next
  case (Cons t ts)
  have "claimedCount w cl' (Suc i) ts = claimedCount w cl (Suc i) ts"
    using Cons.prems by (intro Cons.IH) simp
  moreover have "cl' i = cl i" using Cons.prems by simp
  ultimately show ?case by simp
qed

lemma claimedCount_mark_at:
  assumes "\<And>j. j \<noteq> a \<Longrightarrow> cl' j = cl j" "\<not> cl a" "cl' a"
  shows "i \<le> a \<Longrightarrow> a - i < length ts \<Longrightarrow> number (ts ! (a - i)) = w \<Longrightarrow>
           claimedCount w cl' i ts = claimedCount w cl i ts + 1"
proof (induction ts arbitrary: i)
  case Nil
  then show ?case by simp
next
  case (Cons t ts)
  show ?case
  proof (cases "a = i")
    case True
    have "claimedCount w cl' (Suc i) ts = claimedCount w cl (Suc i) ts"
      using assms(1) True by (intro claimedCount_cong) simp
    then show ?thesis using Cons.prems True assms(2,3) by simp
  next
    case False
    then have lt: "Suc i \<le> a" using Cons.prems(1) by simp
    then have idx: "a - i = Suc (a - Suc i)" by simp
    have "claimedCount w cl' (Suc i) ts = claimedCount w cl (Suc i) ts + 1"
      using Cons.prems lt idx by (intro Cons.IH) auto
    moreover have "cl' i = cl i" using assms(1) False by simp
    ultimately show ?thesis by simp
  qed
qed

lemma claimedCount_mark:
  assumes "tid < length ts" "number (ts ! tid) = w" "\<not> cl tid" "cl' tid"
    and "\<And>j. j \<noteq> tid \<Longrightarrow> cl' j = cl j"
  shows "claimedCount w cl' 0 ts = claimedCount w cl 0 ts + 1"
  using claimedCount_mark_at[of tid cl' cl 0 ts w] assms by simp

lemma settlement_start:
  assumes "claimedWinners rid s = 0" "\<not> feesCollected (rooms s rid)"
    and "1 \<le> winningTicketCount (winningNumber (rooms s rid))
                (roomTicketsByRound s rid (roundNumber (rooms s rid)))"
  shows "settlement rid s s"
  using assms by (simp add: settlement_def Let_def)

lemma settlement_step:
  assumes inv: "settlement rid s0 s"
  shows "settlement rid s0 (persisted (claimPrize e rid tid) s)"
proof (cases rule: persisted_cases[of "claimPrize e rid tid" s])
  case (reverted err)
  then show ?thesis using inv by simp
next
  case (committed s')
  let ?room0 = "rooms s0 rid"
  let ?w = "winningNumber ?room0"
  let ?r = "roundNumber ?room0"
  let ?ts = "roomTicketsByRound s0 rid ?r"
  let ?k = "winningTicketCount ?w ?ts"
  let ?j = "claimedWinners rid s"
  let ?j' = "claimedWinners rid s'"
  have same: "winningNumber (rooms s rid) = ?w" "roundNumber (rooms s rid) = ?r"
             "roomTicketsByRound s rid ?r = ?ts"
    using inv by (auto simp: settlement_def Let_def)
  have g: "tid < length ?ts" "number (?ts ! tid) = ?w" "\<not> ticketClaimed s rid ?r tid"
    using claimPrize_guards[OF committed(1)] same by (auto simp: passesGuards_def Let_def)
  note facts = claimPrize_success[OF committed(1)]
  have cl': "ticketClaimed s' rid ?r = (ticketClaimed s rid ?r)(tid := True)"
    using facts(3) same by (simp add: store_defs)
  have room': "winningNumber (rooms s' rid) = ?w" "roundNumber (rooms s' rid) = ?r"
    using facts(9) same by (auto split: if_splits)
  have ts': "roomTicketsByRound s' rid ?r = ?ts"
    using facts(4) same by simp
  have j': "?j' = ?j + 1"
    unfolding claimedWinners_def Let_def room' ts' same cl'
    using g by (intro claimedCount_mark) auto
  have le: "?j' \<le> ?k"
    unfolding claimedWinners_def Let_def room' ts' by (rule claimedCount_le)
  then have lt: "?j < ?k" using j' by simp
  then have pool: "prizePool (rooms s rid) = prizePool ?room0"
       and fc: "feesCollected (rooms s rid) = (?j \<noteq> 0)"
    using inv by (auto simp: settlement_def Let_def)
  have pay: "payout rid s = payout rid s0"
    using same pool by (simp add: payout_def Let_def)
  have all: "allWinningTicketsClaimed ?w (ticketClaimed s' rid ?r) 0 ?ts \<longleftrightarrow> ?j' = ?k"
    unfolding claimedWinners_def Let_def room' ts' by (rule allClaimed_iff)
  have paid: "paidOut (ledger s') = paidOut (ledger s0) + ?j' * payout rid s0"
    using facts(1) pay j' inv by (simp add: settlement_def Let_def)
  have fees: "collectedFees s' = collectedFees s0
                + (if ?j' = 0 then 0 else (prizePool ?room0 * PLATFORM_FEE) div 100)"
    using facts(2) fc pool j' inv by (auto simp: settlement_def Let_def)
  have fin: "if ?j' < ?k then prizePool (rooms s' rid) = prizePool ?room0
                              \<and> feesCollected (rooms s' rid) = (?j' \<noteq> 0)
             else prizePool (rooms s' rid) = 0 \<and> state (rooms s' rid) = CLOSED"
    using facts(9) same all le pool j' by auto
  show ?thesis
    unfolding committed(2) settlement_def Let_def
    using room' ts' paid fees fin by simp
qed

lemma settlement_claimAll:
  "settlement rid s0 s \<Longrightarrow> settlement rid s0 (claimAll rid cs s)"
proof (induction cs arbitrary: s)
  case Nil
  then show ?case by simp
next
  case (Cons c cs)
  obtain e tid where c: "c = (e, tid)" by (cases c)
  show ?case using Cons.IH[OF settlement_step[OF Cons.prems, of e tid]] c by simp
qed

subsection \<open>The packed encoding is injective on values of the declared widths\<close>

lemma radix_split:
  fixes a b B :: nat
  assumes "b < B" "b' < B" "a * B + b = a' * B + b'"
  shows "a = a' \<and> b = b'"
proof -
  have "(a * B + b) div B = a" "(a' * B + b') div B = a'"
    using assms(1,2) by simp_all
  then have "a = a'" using assms(3) by simp
  then show ?thesis using assms(3) by simp
qed

lemma encodePacked_inj:
  assumes "pk < 2 ^ 256" "pk' < 2 ^ 256" "rid < 2 ^ 256" "rid' < 2 ^ 256"
    and "ow < 2 ^ 160" "ow' < 2 ^ 160" "rnd < 2 ^ 256" "rnd' < 2 ^ 256"
    and "encodePacked n pk rid ow rnd = encodePacked n' pk' rid' ow' rnd'"
  shows "n = n' \<and> pk = pk' \<and> rid = rid' \<and> ow = ow' \<and> rnd = rnd'"
proof -
  let ?c = "((n * 2 ^ 256 + pk) * 2 ^ 256 + rid) * 2 ^ 160 + ow"
  let ?c' = "((n' * 2 ^ 256 + pk') * 2 ^ 256 + rid') * 2 ^ 160 + ow'"
  have 1: "?c = ?c' \<and> rnd = rnd'"
    using assms(7,8,9) unfolding encodePacked_def by (intro radix_split)
  then have 2: "(n * 2 ^ 256 + pk) * 2 ^ 256 + rid = (n' * 2 ^ 256 + pk') * 2 ^ 256 + rid' \<and> ow = ow'"
    using assms(5,6) by (intro radix_split) auto
  then have 3: "n * 2 ^ 256 + pk = n' * 2 ^ 256 + pk' \<and> rid = rid'"
    using assms(3,4) by (intro radix_split) auto
  then have 4: "n = n' \<and> pk = pk'"
    using assms(1,2) by (intro radix_split) auto
  show ?thesis using 1 2 3 4 by simp
qed

subsection \<open>A round without a winning ticket\<close>

lemma claimPrize_no_winner:
  assumes "winningTicketCount (winningNumber (rooms s rid))
             (roomTicketsByRound s rid (roundNumber (rooms s rid))) = 0"
  shows "\<exists>err. call (claimPrize e rid tid) s = Inl err"
proof (cases "call (claimPrize e rid tid) s")
  case (Inl err)
  then show ?thesis by blast
next
  case (Inr s')
  then have "passesGuards e rid tid s" using claimPrize_guards by blast
  then have "1 \<le> winningTicketCount (winningNumber (rooms s rid))
             (roomTicketsByRound s rid (roundNumber (rooms s rid)))"
    by (intro winningTicketCount_pos) (auto simp: passesGuards_def Let_def)
  then show ?thesis using assms by simp
qed

section \<open>The properties of the settlement core\<close>

text \<open>
  A property that names the error of a rejected call is stated for the calls the operation
  admits: made by the account the operation is reserved for, on a contract that is not
  paused. For every other call the theorems still show that the call fails and that the
  storage stays as it was. A property that says a call succeeds is stated for a token that
  grants the transfer.
\<close>

subsection \<open>C1: a ticket is paid once\<close>

text \<open>
  Claim C1. Let \<open>claimPrize\<close> succeed for ticket \<open>tid\<close> of room \<open>rid\<close>, taking the
  storage from \<open>s\<close> to \<open>s1\<close>, and let any transactions \<open>xs\<close> follow that leave the room in
  the same round. Then
  \<^item> the flag of the ticket was not set in \<open>s\<close>, and it is set when the token is asked to
    pay: with a token that refuses, the body stops with \<open>TransferFailed\<close> in a storage that
    already holds the flag;
  \<^item> the successful call made the token pay the caller once, the amount \<open>payout rid s\<close>;
  \<^item> every later \<open>claimPrize\<close> for the same ticket fails, whoever calls, and changes
    nothing, so the token is not asked again; for the owner of the ticket on a contract that
    is not paused the error is \<open>InvalidTicket\<close>.
\<close>

theorem claimPrize_exactly_once:
  assumes first: "call (claimPrize e rid tid) s = Inr s1"
    and later: "roundNumber (rooms (execute keccak xs s1) rid) = roundNumber (rooms s rid)"
  shows "\<not> ticketClaimed s rid (roundNumber (rooms s rid)) tid
       \<and> fst (claimPrize (e\<lparr>transferOk := False\<rparr>) rid tid s) = Some TransferFailed
       \<and> ticketClaimed (snd (claimPrize (e\<lparr>transferOk := False\<rparr>) rid tid s)) rid
           (roundNumber (rooms s rid)) tid
       \<and> ledger s1 = Transfer (sender e) (payout rid s) # ledger s
       \<and> (\<exists>err. call (claimPrize e' rid tid) (execute keccak xs s1) = Inl err
             \<and> (sender e' = sender e \<and> \<not> paused (execute keccak xs s1) \<longrightarrow> err = InvalidTicket))
       \<and> persisted (claimPrize e' rid tid) (execute keccak xs s1) = execute keccak xs s1"
proof -
  let ?r = "roundNumber (rooms s rid)"
  let ?s2 = "execute keccak xs s1"
  have g: "passesGuards e rid tid s" "rid < roomCount s"
    using claimPrize_guards[OF first] by auto
  have t1: "roomTicketsByRound s1 = roomTicketsByRound s"
    and c1: "ticketClaimed s1 rid ?r tid"
    and n1: "roomCount s1 = roomCount s"
    using claimPrize_success(3,4,5)[OF first] by (auto simp: store_defs)
  have len: "tid < length (roomTicketsByRound s1 rid ?r)"
    and own: "player (roomTicketsByRound s1 rid ?r ! tid) = sender e"
    using g t1 by (auto simp: passesGuards_def Let_def)
  have inv: "tid < length (roomTicketsByRound ?s2 rid ?r)" "ticketClaimed ?s2 rid ?r tid"
            "player (roomTicketsByRound ?s2 rid ?r ! tid) = sender e"
            "rid < roomCount ?s2"
    using execute_claimed[OF len c1, of keccak xs] own g(2) n1 by auto
  from claimPrize_repeat[of tid ?s2 rid e'] inv later
  obtain err where r: "call (claimPrize e' rid tid) ?s2 = Inl err"
     "\<not> paused ?s2 \<and> sender e' = sender e \<longrightarrow> err = InvalidTicket"
    by auto
  have "persisted (claimPrize e' rid tid) ?s2 = ?s2"
    using r(1) by (simp add: persisted_def)
  moreover have "\<not> ticketClaimed s rid ?r tid"
    using g(1) by (simp add: passesGuards_def Let_def)
  ultimately show ?thesis
    using r claimPrize_refused[OF first] claimPrize_success(1)[OF first] by auto
qed

text \<open>
  The four-ticket round: player 4 holds the only winning ticket, claims 36 out of a pool of
  40, and claims again after two other transactions.
\<close>

theorem claimPrize_exactly_once_witness:
  "call (claimPrize (caller 4 1070) 0 2)
     (execute (\<lambda>x. x) [(caller 3 1020, ClaimPrize 0 1), (caller 1 1030, WithdrawFees 0)]
        (persisted (claimPrize (caller 4 1010) 0 2) fourTicketsRevealed)) = Inl InvalidTicket
   \<and> ledger (persisted (claimPrize (caller 4 1010) 0 2) fourTicketsRevealed)
       = Transfer 4 36 # ledger fourTicketsRevealed"
proof -
  have 1: "call (claimPrize (caller 4 1010) 0 2) fourTicketsRevealed
             = Inr (persisted (claimPrize (caller 4 1010) 0 2) fourTicketsRevealed)"
    by (rule call_persisted) (simp add: fourTicketsRevealed_def fourTickets_def eval_defs)
  have 2: "roundNumber (rooms (execute (\<lambda>x. x)
             [(caller 3 1020, ClaimPrize 0 1), (caller 1 1030, WithdrawFees 0)]
             (persisted (claimPrize (caller 4 1010) 0 2) fourTicketsRevealed)) 0)
           = roundNumber (rooms fourTicketsRevealed 0)"
    by (simp add: fourTicketsRevealed_def fourTickets_def eval_defs)
  have 3: "payout 0 fourTicketsRevealed = 36"
    by (simp add: payout_def fourTicketsRevealed_def fourTickets_def eval_defs)
  have 4: "\<not> paused (execute (\<lambda>x. x)
             [(caller 3 1020, ClaimPrize 0 1), (caller 1 1030, WithdrawFees 0)]
             (persisted (claimPrize (caller 4 1010) 0 2) fourTicketsRevealed))"
    by (simp add: fourTicketsRevealed_def fourTickets_def eval_defs)
  show ?thesis
    using claimPrize_exactly_once[OF 1 2, of "caller 4 1070"] 3 4
    by (auto simp: caller_def)
qed

subsection \<open>C2: what the claims of a round pay in total\<close>

text \<open>
  Claim C2, amended. Take a room whose round has \<open>k \<ge> 1\<close> winning tickets, none of them
  claimed, no fee booked for the round, and pool \<open>P\<close>; let \<open>fee = P * 10 div 100\<close>. After any
  sequence of \<open>claimPrize\<close> calls on the room (any callers, any tickets, any order, repeated
  or failing calls included) with \<open>j\<close> winning tickets claimed,
  \<^item> the token has paid out \<open>j * ((P - fee) div k)\<close> more than before;
  \<^item> \<open>collectedFees\<close> has grown by \<open>fee\<close> if \<open>j > 0\<close>, and not at all if no claim succeeded;
  \<^item> \<open>j \<le> k\<close>.
  The total is \<open>k * ((P - fee) div k)\<close> when all \<open>k\<close> winning tickets have been claimed.
\<close>

theorem conservation_of_claims:
  assumes winners: "1 \<le> winningTicketCount (winningNumber (rooms s rid))
                          (roomTicketsByRound s rid (roundNumber (rooms s rid)))"
    and fresh: "claimedWinners rid s = 0" "\<not> feesCollected (rooms s rid)"
  shows "paidOut (ledger (claimAll rid cs s))
           = paidOut (ledger s) + claimedWinners rid (claimAll rid cs s)
               * ((prizePool (rooms s rid) - (prizePool (rooms s rid) * PLATFORM_FEE) div 100)
                    div winningTicketCount (winningNumber (rooms s rid))
                          (roomTicketsByRound s rid (roundNumber (rooms s rid))))
       \<and> collectedFees (claimAll rid cs s)
           = collectedFees s + (if claimedWinners rid (claimAll rid cs s) = 0 then 0
                                else (prizePool (rooms s rid) * PLATFORM_FEE) div 100)
       \<and> claimedWinners rid (claimAll rid cs s)
           \<le> winningTicketCount (winningNumber (rooms s rid))
                 (roomTicketsByRound s rid (roundNumber (rooms s rid)))"
proof -
  let ?s' = "claimAll rid cs s"
  have inv: "settlement rid s ?s'"
    using settlement_claimAll[OF settlement_start[OF fresh winners]] .
  have same: "winningNumber (rooms ?s' rid) = winningNumber (rooms s rid)"
    "roundNumber (rooms ?s' rid) = roundNumber (rooms s rid)"
    "roomTicketsByRound ?s' rid (roundNumber (rooms s rid))
       = roomTicketsByRound s rid (roundNumber (rooms s rid))"
    using inv by (auto simp: settlement_def Let_def)
  have le: "claimedWinners rid ?s'
           \<le> winningTicketCount (winningNumber (rooms s rid))
                 (roomTicketsByRound s rid (roundNumber (rooms s rid)))"
    unfolding claimedWinners_def Let_def same by (rule claimedCount_le)
  show ?thesis
    using inv le by (simp add: settlement_def payout_def Let_def)
qed

text \<open>
  Two winners and a pool of 100: three calls, one of them a repetition, pay 45 twice and
  book the fee of 10 once.
\<close>

theorem conservation_of_claims_witness:
  "paidOut (ledger (claimAll 0 [(caller 3 1010, 1), (caller 3 1020, 1), (caller 2 1030, 0)] twoWinners))
     = paidOut (ledger twoWinners) + 2 * 45
   \<and> collectedFees (claimAll 0 [(caller 3 1010, 1), (caller 3 1020, 1), (caller 2 1030, 0)] twoWinners)
     = 10"
proof -
  let ?cs = "[(caller 3 1010, 1), (caller 3 1020, 1), (caller 2 1030, 0)]"
  have st: "winningTicketCount (winningNumber (rooms twoWinners 0))
              (roomTicketsByRound twoWinners 0 (roundNumber (rooms twoWinners 0))) = 2"
    "claimedWinners 0 twoWinners = 0" "\<not> feesCollected (rooms twoWinners 0)"
    "prizePool (rooms twoWinners 0) = 100" "collectedFees twoWinners = 0"
    by (simp_all add: claimedWinners_def twoWinners_def eval_defs)
  have j: "claimedWinners 0 (claimAll 0 ?cs twoWinners) = 2"
    by (simp add: claimedWinners_def twoWinners_def eval_defs)
  have w: "1 \<le> winningTicketCount (winningNumber (rooms twoWinners 0))
              (roomTicketsByRound twoWinners 0 (roundNumber (rooms twoWinners 0)))"
    using st(1) by simp
  show ?thesis
    using conservation_of_claims[OF w st(2,3), of ?cs] st j
    by (simp add: PLATFORM_FEE_def)
qed

text \<open>
  The claim as first stated asks for \<open>k * ((P - fee) div k)\<close> in every round. In the round
  below two tickets win and the pool is 100 at the reveal; one winner claims, the other
  never does, and the owner closes the room after the grace period. The round has paid 45,
  not 90.
\<close>

theorem conservation_counterexample:
  "winningTicketCount (winningNumber (rooms oneClaimThenClosed 0))
     (roomTicketsByRound oneClaimThenClosed 0 (roundNumber (rooms oneClaimThenClosed 0))) = 2
   \<and> prizePool (rooms twoWinners 0) = 100
   \<and> state (rooms oneClaimThenClosed 0) = CLOSED
   \<and> paidOut (ledger oneClaimThenClosed) = 45
   \<and> paidOut (ledger oneClaimThenClosed) \<noteq> 2 * ((100 - (100 * PLATFORM_FEE) div 100) div 2)"
  by (simp add: oneClaimThenClosed_def twoWinners_def eval_defs numeral_2_eq_2[symmetric])

subsection \<open>C3: buying a ticket does not look at the state of the room\<close>

text \<open>
  Claim C3 says that \<open>buyTicket\<close> succeeds only in state \<open>OPEN\<close> and that a revealed room
  never sells a ticket. \<open>buyTicket\<close> compares the block time with the draw time and never
  reads \<open>state\<close> or \<open>revealed\<close>. In the run below the owner reveals 42 at time 20, before
  the draw time 1000. The room is \<open>REVEALED\<close>; at time 30 player 3 buys a ticket with the
  number 42 that is public by then, the purchase is committed, and the ticket then
  collects the prize of 18.
\<close>

theorem buyTicket_after_reveal:
  "state (rooms earlyReveal 0) = REVEALED
   \<and> revealed (rooms earlyReveal 0)
   \<and> winningNumber (rooms earlyReveal 0) = 42
   \<and> call (buyTicket (caller 3 30) 0 42) earlyReveal
       = Inr (persisted (buyTicket (caller 3 30) 0 42) earlyReveal)
   \<and> map number (roomTicketsByRound (persisted (buyTicket (caller 3 30) 0 42) earlyReveal) 0 1)
       = [15, 42]
   \<and> ledger (persisted (claimPrize (caller 3 40) 0 1)
        (persisted (buyTicket (caller 3 30) 0 42) earlyReveal))
       = [Transfer 3 18, TransferFrom 3 10, TransferFrom 2 10]"
proof -
  have "call (buyTicket (caller 3 30) 0 42) earlyReveal
       = Inr (persisted (buyTicket (caller 3 30) 0 42) earlyReveal)"
    by (rule call_persisted) (simp add: earlyReveal_def eval_defs)
  then show ?thesis
    by (simp add: earlyReveal_def eval_defs)
qed

subsection \<open>C4: a round is revealed once\<close>

text \<open>
  Claim C4. Let \<open>revealWinningNumber\<close> succeed for room \<open>rid\<close>, and let any transactions
  \<open>xs\<close> follow that leave the room in the same round. Then every further
  \<open>revealWinningNumber\<close> on the room fails, whatever secret \<open>pk'\<close> and number \<open>n'\<close> it
  submits, and leaves the whole storage (so the winning number, the state and the tickets
  of the room) as it was. Called by the owner on a contract that is not paused, it fails
  with \<open>AlreadyRevealed\<close>: the flag is tested before the commitment is verified.
\<close>

theorem reveal_exactly_once:
  assumes first: "call (revealWinningNumber keccak e rid pk n) s = Inr s1"
    and later: "roundNumber (rooms (execute keccak xs s1) rid) = roundNumber (rooms s rid)"
  shows "(\<exists>err. call (revealWinningNumber keccak e' rid pk' n') (execute keccak xs s1) = Inl err
            \<and> (sender e' = owner (execute keccak xs s1) \<and> \<not> paused (execute keccak xs s1)
                 \<longrightarrow> err = AlreadyRevealed))
       \<and> persisted (revealWinningNumber keccak e' rid pk' n') (execute keccak xs s1)
           = execute keccak xs s1"
proof -
  let ?s2 = "execute keccak xs s1"
  note f = revealWinningNumber_success[OF first]
  have "revealedIn rid (roundNumber (rooms s rid)) s1"
    using f(3,8,11) by (simp add: revealedIn_def)
  then have "revealedIn rid (roundNumber (rooms s rid)) ?s2"
    by (rule execute_revealedIn)
  then have r: "rid < roomCount ?s2" "revealed (rooms ?s2 rid)"
    using later by (auto simp: revealedIn_def)
  then show ?thesis
    by (auto simp: revealWinningNumber_def tx_defs modifier_defs Let_def)
qed

text \<open>
  The four-ticket round after its reveal and one claim: a second reveal fails with
  \<open>AlreadyRevealed\<close>, with the right secret and number as with wrong ones.
\<close>

theorem reveal_exactly_once_witness:
  "call (revealWinningNumber (\<lambda>x. x) (caller 1 1050) 0 7 42)
     (execute (\<lambda>x. x) [(caller 4 1010, ClaimPrize 0 2)] fourTicketsRevealed) = Inl AlreadyRevealed
   \<and> call (revealWinningNumber (\<lambda>x. x) (caller 1 1050) 0 8 15)
     (execute (\<lambda>x. x) [(caller 4 1010, ClaimPrize 0 2)] fourTicketsRevealed) = Inl AlreadyRevealed"
proof -
  let ?s2 = "execute (\<lambda>x. x) [(caller 4 1010, ClaimPrize 0 2)] fourTicketsRevealed"
  have s1: "fourTicketsRevealed
              = persisted (revealWinningNumber (\<lambda>x. x) (caller 1 1000) 0 7 42) fourTicketsSold"
    by (simp add: fourTicketsRevealed_def fourTicketsSold_def fourTickets_def)
  have 1: "call (revealWinningNumber (\<lambda>x. x) (caller 1 1000) 0 7 42) fourTicketsSold
             = Inr fourTicketsRevealed"
    unfolding s1 by (rule call_persisted) (simp add: fourTicketsSold_def fourTickets_def eval_defs)
  have 2: "roundNumber (rooms ?s2 0) = roundNumber (rooms fourTicketsSold 0)"
    by (simp add: fourTicketsRevealed_def fourTicketsSold_def fourTickets_def eval_defs)
  have 3: "owner ?s2 = 1" "\<not> paused ?s2"
    by (simp_all add: fourTicketsRevealed_def fourTickets_def eval_defs)
  show ?thesis
    using reveal_exactly_once[OF 1 2, of "caller 1 1050" 7 42]
          reveal_exactly_once[OF 1 2, of "caller 1 1050" 8 15] 3
    by (auto simp: caller_def)
qed

subsection \<open>C5: the commitment binds number, secret, room, owner and round\<close>

text \<open>
  Claim C5. Let the room store the digest of \<open>(n0, pk0, rid0, ow0, rnd0)\<close>. Verification
  of \<open>(n, pk)\<close> for room \<open>rid\<close> succeeds exactly when the digest of
  \<open>(n, pk, rid, owner, round)\<close> is the stored one and \<open>n \<le> 99\<close>. If \<open>keccak256\<close> does not
  collide on the two packed encodings, that is exactly when all five fields agree and
  \<open>n \<le> 99\<close>, so a change of any single field makes verification fail. When verification
  fails in a reveal (owner calling, contract not paused, room known and not yet revealed),
  \<open>revealWinningNumber\<close> reverts with \<open>InvalidVerification\<close> and the storage is unchanged.
  The width hypotheses say that the values have the Solidity types of the fields.
\<close>

theorem commitment_round_trip:
  assumes stored: "encryptedWinningNumber (rooms s rid) = keccak (encodePacked n0 pk0 rid0 ow0 rnd0)"
    and no_collision:
      "keccak (encodePacked n pk rid (owner s) (roundNumber (rooms s rid)))
         = keccak (encodePacked n0 pk0 rid0 ow0 rnd0)
       \<Longrightarrow> encodePacked n pk rid (owner s) (roundNumber (rooms s rid))
         = encodePacked n0 pk0 rid0 ow0 rnd0"
    and widths: "pk < 2 ^ 256" "pk0 < 2 ^ 256" "rid < 2 ^ 256" "rid0 < 2 ^ 256"
      "owner s < 2 ^ 160" "ow0 < 2 ^ 160" "roundNumber (rooms s rid) < 2 ^ 256" "rnd0 < 2 ^ 256"
  shows "(verifyWinningNumber keccak rid pk n s \<longleftrightarrow>
            keccak (encodePacked n pk rid (owner s) (roundNumber (rooms s rid)))
              = encryptedWinningNumber (rooms s rid) \<and> n \<le> 99)
       \<and> (verifyWinningNumber keccak rid pk n s \<longleftrightarrow>
            n = n0 \<and> pk = pk0 \<and> rid = rid0 \<and> owner s = ow0
            \<and> roundNumber (rooms s rid) = rnd0 \<and> n \<le> 99)
       \<and> (sender e = owner s \<and> \<not> paused s \<and> rid < roomCount s \<and> \<not> revealed (rooms s rid)
            \<and> \<not> verifyWinningNumber keccak rid pk n s \<longrightarrow>
              call (revealWinningNumber keccak e rid pk n) s = Inl InvalidVerification
              \<and> persisted (revealWinningNumber keccak e rid pk n) s = s)"
proof -
  have def: "verifyWinningNumber keccak rid pk n s \<longleftrightarrow>
            keccak (encodePacked n pk rid (owner s) (roundNumber (rooms s rid)))
              = encryptedWinningNumber (rooms s rid) \<and> n \<le> 99"
    by (simp add: verifyWinningNumber_def Let_def)
  have "keccak (encodePacked n pk rid (owner s) (roundNumber (rooms s rid)))
          = encryptedWinningNumber (rooms s rid)
        \<longleftrightarrow> n = n0 \<and> pk = pk0 \<and> rid = rid0 \<and> owner s = ow0 \<and> roundNumber (rooms s rid) = rnd0"
  proof
    assume "keccak (encodePacked n pk rid (owner s) (roundNumber (rooms s rid)))
          = encryptedWinningNumber (rooms s rid)"
    then have "encodePacked n pk rid (owner s) (roundNumber (rooms s rid))
                 = encodePacked n0 pk0 rid0 ow0 rnd0"
      using stored no_collision by simp
    then show "n = n0 \<and> pk = pk0 \<and> rid = rid0 \<and> owner s = ow0 \<and> roundNumber (rooms s rid) = rnd0"
      using widths by (intro encodePacked_inj)
  next
    assume "n = n0 \<and> pk = pk0 \<and> rid = rid0 \<and> owner s = ow0 \<and> roundNumber (rooms s rid) = rnd0"
    then have "encodePacked n pk rid (owner s) (roundNumber (rooms s rid))
                 = encodePacked n0 pk0 rid0 ow0 rnd0"
      by auto
    then show "keccak (encodePacked n pk rid (owner s) (roundNumber (rooms s rid)))
          = encryptedWinningNumber (rooms s rid)"
      using stored by simp
  qed
  then have tuple: "verifyWinningNumber keccak rid pk n s \<longleftrightarrow>
            n = n0 \<and> pk = pk0 \<and> rid = rid0 \<and> owner s = ow0
            \<and> roundNumber (rooms s rid) = rnd0 \<and> n \<le> 99"
    using def by blast
  have rev: "sender e = owner s \<and> \<not> paused s \<and> rid < roomCount s \<and> \<not> revealed (rooms s rid)
            \<and> \<not> verifyWinningNumber keccak rid pk n s \<longrightarrow>
              call (revealWinningNumber keccak e rid pk n) s = Inl InvalidVerification
              \<and> persisted (revealWinningNumber keccak e rid pk n) s = s"
    by (simp add: revealWinningNumber_def tx_defs modifier_defs Let_def)
  show ?thesis using def tuple rev by blast
qed

text \<open>
  The room of the four-ticket round commits to number 42 with secret 7: these verify,
  secret 8 does not, and a reveal with secret 8 is rejected.
\<close>

theorem commitment_round_trip_witness:
  "verifyWinningNumber (\<lambda>x. x) 0 7 42 fourTicketsSold
   \<and> \<not> verifyWinningNumber (\<lambda>x. x) 0 8 42 fourTicketsSold
   \<and> call (revealWinningNumber (\<lambda>x. x) (caller 1 1000) 0 8 42) fourTicketsSold
       = Inl InvalidVerification"
proof -
  have st: "encryptedWinningNumber (rooms fourTicketsSold 0) = encodePacked 42 7 0 1 1"
    "owner fourTicketsSold = 1" "roundNumber (rooms fourTicketsSold 0) = 1"
    "\<not> paused fourTicketsSold" "0 < roomCount fourTicketsSold"
    "\<not> revealed (rooms fourTicketsSold 0)"
    by (simp_all add: fourTicketsSold_def fourTickets_def eval_defs)
  have good: "verifyWinningNumber (\<lambda>x. x) 0 7 42 fourTicketsSold"
    using commitment_round_trip[of fourTicketsSold 0 "\<lambda>x. x" 42 7 0 1 1 42 7] st by simp
  have bad: "\<not> verifyWinningNumber (\<lambda>x. x) 0 8 42 fourTicketsSold
     \<and> call (revealWinningNumber (\<lambda>x. x) (caller 1 1000) 0 8 42) fourTicketsSold
         = Inl InvalidVerification"
    using commitment_round_trip[of fourTicketsSold 0 "\<lambda>x. x" 42 7 0 1 1 42 8 "caller 1 1000"] st
    by (simp add: caller_def encodePacked_def)
  show ?thesis using good bad by simp
qed

subsection \<open>C6: a reset carries the pool over\<close>

text \<open>
  Claim C6. A committed \<open>resetRoom\<close> changes, in the room, the draw time, the commitment,
  the revealed flag, the state, the winning number, the round number, the fee flag and the
  reveal time, and nothing else: the prize pool after the reset is the prize pool before
  it. Closing the room by \<open>forceCloseRoom\<close> changes the state only. In a round without a
  winning ticket no \<open>claimPrize\<close> succeeds, so no claim takes anything from the pool
  either.
\<close>

theorem resetRoom_keeps_pool:
  "(call (resetRoom e rid dt enc) s = Inr s' \<longrightarrow>
      rooms s' rid = (rooms s rid)\<lparr>drawTime := dt, encryptedWinningNumber := enc,
         revealed := False, state := OPEN, winningNumber := 0,
         roundNumber := roundNumber (rooms s rid) + 1, feesCollected := False, revealTime := 0\<rparr>
      \<and> prizePool (rooms s' rid) = prizePool (rooms s rid))
   \<and> (call (forceCloseRoom e rid) s = Inr s' \<longrightarrow>
      rooms s' rid = (rooms s rid)\<lparr>state := CLOSED\<rparr>
      \<and> prizePool (rooms s' rid) = prizePool (rooms s rid))
   \<and> (winningTicketCount (winningNumber (rooms s rid))
         (roomTicketsByRound s rid (roundNumber (rooms s rid))) = 0 \<longrightarrow>
      (\<exists>err. call (claimPrize e rid tid) s = Inl err)
      \<and> persisted (claimPrize e rid tid) s = s)"
proof -
  have 1: "call (resetRoom e rid dt enc) s = Inr s' \<longrightarrow>
      rooms s' rid = (rooms s rid)\<lparr>drawTime := dt, encryptedWinningNumber := enc,
         revealed := False, state := OPEN, winningNumber := 0,
         roundNumber := roundNumber (rooms s rid) + 1, feesCollected := False, revealTime := 0\<rparr>
      \<and> prizePool (rooms s' rid) = prizePool (rooms s rid)"
    by (auto simp: resetRoom_def tx_defs modifier_defs store_defs Let_def split: if_splits)
  have 2: "call (forceCloseRoom e rid) s = Inr s' \<longrightarrow>
      rooms s' rid = (rooms s rid)\<lparr>state := CLOSED\<rparr>
      \<and> prizePool (rooms s' rid) = prizePool (rooms s rid)"
    by (auto simp: forceCloseRoom_def tx_defs modifier_defs store_defs Let_def split: if_splits)
  have 3: "winningTicketCount (winningNumber (rooms s rid))
         (roomTicketsByRound s rid (roundNumber (rooms s rid))) = 0 \<longrightarrow>
      (\<exists>err. call (claimPrize e rid tid) s = Inl err)
      \<and> persisted (claimPrize e rid tid) s = s"
    using claimPrize_no_winner[of s rid e tid] by (auto simp: persisted_def)
  show ?thesis using 1 2 3 by blast
qed

text \<open>
  A round with one ticket, 15, and winning number 42: a claim is refused, the owner closes
  the room after the grace period and resets it; round 2 starts with the pool of 10.
\<close>

theorem resetRoom_keeps_pool_witness:
  "prizePool (rooms noWinner 0) = 10
   \<and> prizePool (rooms (persisted (resetRoom (caller 1 90000) 0 200000 (encodePacked 5 9 0 1 2))
        (persisted (forceCloseRoom (caller 1 87400) 0)
          (persisted (claimPrize (caller 2 1010) 0 0) noWinner))) 0) = 10
   \<and> roundNumber (rooms (persisted (resetRoom (caller 1 90000) 0 200000 (encodePacked 5 9 0 1 2))
        (persisted (forceCloseRoom (caller 1 87400) 0)
          (persisted (claimPrize (caller 2 1010) 0 0) noWinner))) 0) = 2"
proof -
  let ?s0 = "persisted (claimPrize (caller 2 1010) 0 0) noWinner"
  let ?s1 = "persisted (forceCloseRoom (caller 1 87400) 0) ?s0"
  let ?s2 = "persisted (resetRoom (caller 1 90000) 0 200000 (encodePacked 5 9 0 1 2)) ?s1"
  have p: "prizePool (rooms noWinner 0) = 10" "roundNumber (rooms noWinner 0) = 1"
    by (simp_all add: noWinner_def eval_defs)
  have z: "winningTicketCount (winningNumber (rooms noWinner 0))
         (roomTicketsByRound noWinner 0 (roundNumber (rooms noWinner 0))) = 0"
    by (simp add: noWinner_def eval_defs)
  have s0: "?s0 = noWinner"
    using resetRoom_keeps_pool[of "caller 2 1010" 0 0 0 noWinner noWinner 0] z by simp
  have c: "call (forceCloseRoom (caller 1 87400) 0) noWinner = Inr ?s1"
    unfolding s0 by (rule call_persisted) (simp add: noWinner_def eval_defs)
  have r: "call (resetRoom (caller 1 90000) 0 200000 (encodePacked 5 9 0 1 2)) ?s1 = Inr ?s2"
    by (rule call_persisted) (simp add: noWinner_def eval_defs)
  have "prizePool (rooms ?s1 0) = 10" "roundNumber (rooms ?s1 0) = 1"
    using resetRoom_keeps_pool[of "caller 1 87400" 0 0 0 noWinner ?s1 0] c p by simp_all
  then have "prizePool (rooms ?s2 0) = 10" "roundNumber (rooms ?s2 0) = 2"
    using resetRoom_keeps_pool[of "caller 1 90000" 0 200000 "encodePacked 5 9 0 1 2" ?s1 ?s2 0] r
    by simp_all
  then show ?thesis using p by simp
qed

subsection \<open>C7: a failing call leaves no trace\<close>

text \<open>
  Claim C7. Whatever public function is called, in whatever storage: if the call ends in
  an error, the storage that persists is the storage before the call. A revert undoes
  every write of the body. \<open>buyTicket\<close> shows it: at or after the draw time the body first
  writes \<open>PENDING_REVEAL\<close> into the room and then reverts with \<open>BuyTicketAfterDrawTime\<close>; the
  write is in the storage the body stopped in, and not in the storage that persists.
\<close>

theorem revert_leaves_storage:
  "(call (run keccak e x) s = Inl err \<longrightarrow> persisted (run keccak e x) s = s)
   \<and> (\<not> paused s \<and> rid < roomCount s \<and> drawTime (rooms s rid) \<le> timestamp e \<longrightarrow>
        call (buyTicket e rid n) s = Inl BuyTicketAfterDrawTime
        \<and> state (rooms (snd (buyTicket e rid n s)) rid) = PENDING_REVEAL
        \<and> persisted (buyTicket e rid n) s = s)"
  by (simp add: buyTicket_def tx_defs modifier_defs store_defs Let_def)

text \<open>
  The four-ticket room at its draw time: the purchase is rejected and the room is still
  \<open>OPEN\<close>.
\<close>

theorem revert_leaves_storage_witness:
  "call (run (\<lambda>x. x) (caller 2 1000) (BuyTicket 0 5)) fourTicketsSold = Inl BuyTicketAfterDrawTime
   \<and> persisted (run (\<lambda>x. x) (caller 2 1000) (BuyTicket 0 5)) fourTicketsSold = fourTicketsSold
   \<and> state (rooms (snd (buyTicket (caller 2 1000) 0 5 fourTicketsSold)) 0) = PENDING_REVEAL
   \<and> state (rooms fourTicketsSold 0) = OPEN"
proof -
  have st: "\<not> paused fourTicketsSold" "0 < roomCount fourTicketsSold"
    "drawTime (rooms fourTicketsSold 0) = 1000" "state (rooms fourTicketsSold 0) = OPEN"
    by (simp_all add: fourTicketsSold_def fourTickets_def eval_defs)
  show ?thesis
    using revert_leaves_storage[of "\<lambda>x. x" "caller 2 1000" "BuyTicket 0 5" fourTicketsSold
            BuyTicketAfterDrawTime 0 5] st
    by (simp add: caller_def)
qed

subsection \<open>C8: ticket numbers\<close>

text \<open>
  Claim C8, amended. In every storage reachable from deployment every stored ticket has a
  number of at most 99. A \<open>buyTicket\<close> call with a number above 99 fails in every storage
  and appends no ticket. Its error is \<open>InvalidNumber\<close> exactly when the contract is not
  paused, the room exists and the block time is before the draw time of the room; the
  draw-time test comes before the number test.
\<close>

theorem buyTicket_number_range:
  "(t \<in> set (roomTicketsByRound (execute keccak xs (deploy d)) rid rnd) \<longrightarrow> number t \<le> 99)
   \<and> (99 < n \<longrightarrow>
        (\<exists>err. call (buyTicket e rid' n) s = Inl err)
        \<and> persisted (buyTicket e rid' n) s = s
        \<and> (call (buyTicket e rid' n) s = Inl InvalidNumber
             \<longleftrightarrow> \<not> paused s \<and> rid' < roomCount s \<and> timestamp e < drawTime (rooms s rid')))"
proof -
  have "inRange (execute keccak xs (deploy d))"
    by (rule execute_inRange[OF deploy_inRange])
  then have 1: "t \<in> set (roomTicketsByRound (execute keccak xs (deploy d)) rid rnd) \<longrightarrow> number t \<le> 99"
    by (auto simp: inRange_def)
  have 2: "99 < n \<longrightarrow>
        (\<exists>err. call (buyTicket e rid' n) s = Inl err)
        \<and> persisted (buyTicket e rid' n) s = s
        \<and> (call (buyTicket e rid' n) s = Inl InvalidNumber
             \<longleftrightarrow> \<not> paused s \<and> rid' < roomCount s \<and> timestamp e < drawTime (rooms s rid'))"
    by (auto simp: buyTicket_def tx_defs modifier_defs Let_def)
  show ?thesis using 1 2 by blast
qed

text \<open>
  The fourth ticket of the four-ticket round has a number of at most 99, and before the
  draw time the number 100 is rejected with \<open>InvalidNumber\<close>.
\<close>

theorem buyTicket_number_range_witness:
  "number (roomTicketsByRound (execute (\<lambda>x. x) fourTickets (deploy 1)) 0 1 ! 3) \<le> 99
   \<and> call (buyTicket (caller 2 50) 0 100) fourTicketsSold = Inl InvalidNumber
   \<and> persisted (buyTicket (caller 2 50) 0 100) fourTicketsSold = fourTicketsSold"
proof -
  have m: "roomTicketsByRound (execute (\<lambda>x. x) fourTickets (deploy 1)) 0 1 ! 3
             \<in> set (roomTicketsByRound (execute (\<lambda>x. x) fourTickets (deploy 1)) 0 1)"
    by (simp add: fourTickets_def eval_defs)
  have st: "\<not> paused fourTicketsSold" "0 < roomCount fourTicketsSold"
    "drawTime (rooms fourTicketsSold 0) = 1000"
    by (simp_all add: fourTicketsSold_def fourTickets_def eval_defs)
  show ?thesis
    using buyTicket_number_range[of
            "roomTicketsByRound (execute (\<lambda>x. x) fourTickets (deploy 1)) 0 1 ! 3"
            "\<lambda>x. x" fourTickets 1 0 1 100 "caller 2 50" 0 fourTicketsSold] m st
    by (simp add: caller_def)
qed

text \<open>
  The claim as first stated asks for \<open>InvalidNumber\<close> in every state. At the draw time of
  the room the same call fails with \<open>BuyTicketAfterDrawTime\<close>.
\<close>

theorem buyTicket_number_counterexample:
  "call (buyTicket (caller 2 1000) 0 100) fourTicketsSold = Inl BuyTicketAfterDrawTime
   \<and> call (buyTicket (caller 2 1000) 0 100) fourTicketsSold \<noteq> Inl InvalidNumber"
  by (simp add: fourTicketsSold_def fourTickets_def eval_defs)

subsection \<open>C9: withdrawing fees\<close>

text \<open>
  Claim C9. Let the owner call \<open>withdrawFees amount\<close> with \<open>F\<close> collected fees tracked.
  If \<open>amount > F\<close> the call fails with \<open>InvalidAmount\<close> and changes nothing. If the token
  grants the transfer: for \<open>0 < amount \<le> F\<close> the call succeeds, the token pays \<open>amount\<close> to
  the owner and \<open>F - amount\<close> stays tracked; for \<open>amount = 0\<close> the token pays \<open>F\<close> and \<open>0\<close>
  stays tracked. Nothing else in the storage changes.
\<close>

theorem withdrawFees_semantics:
  assumes "sender e = owner s"
  shows "(collectedFees s < amount \<longrightarrow>
            call (withdrawFees e amount) s = Inl InvalidAmount
            \<and> persisted (withdrawFees e amount) s = s)
       \<and> (transferOk e \<longrightarrow>
            (0 < amount \<and> amount \<le> collectedFees s \<longrightarrow>
               call (withdrawFees e amount) s =
                 Inr (s\<lparr>collectedFees := collectedFees s - amount,
                        ledger := Transfer (owner s) amount # ledger s\<rparr>))
          \<and> call (withdrawFees e 0) s =
               Inr (s\<lparr>collectedFees := 0,
                      ledger := Transfer (owner s) (collectedFees s) # ledger s\<rparr>))"
  using assms by (simp add: withdrawFees_def tx_defs modifier_defs Let_def)

text \<open>
  With 10 collected: 4 is paid and 6 stay; 11 is refused; 0 pays all 10.
\<close>

theorem withdrawFees_semantics_witness:
  "collectedFees oneClaimThenClosed = 10
   \<and> call (withdrawFees (caller 1 90000) 4) oneClaimThenClosed
       = Inr (oneClaimThenClosed\<lparr>collectedFees := 6,
                ledger := Transfer 1 4 # ledger oneClaimThenClosed\<rparr>)
   \<and> call (withdrawFees (caller 1 90000) 11) oneClaimThenClosed = Inl InvalidAmount
   \<and> call (withdrawFees (caller 1 90000) 0) oneClaimThenClosed
       = Inr (oneClaimThenClosed\<lparr>collectedFees := 0,
                ledger := Transfer 1 10 # ledger oneClaimThenClosed\<rparr>)"
proof -
  have st: "collectedFees oneClaimThenClosed = 10" "owner oneClaimThenClosed = 1"
    by (simp_all add: oneClaimThenClosed_def twoWinners_def eval_defs numeral_2_eq_2[symmetric])
  then have o: "sender (caller 1 90000) = owner oneClaimThenClosed"
    by (simp add: caller_def)
  show ?thesis
    using withdrawFees_semantics[OF o, of 4] withdrawFees_semantics[OF o, of 11] st
    by (simp add: caller_def)
qed

subsection \<open>C10: the payout never divides by zero\<close>

text \<open>
  Claim C10. When a call of \<open>claimPrize\<close> passes its five guards, the ticket of the caller
  is among the tickets counted, so \<open>winningTicketCount\<close> is at least 1 and the division
  of the payout is by a positive number. Such a call, on a known room of a contract that
  is not paused, ends in one of three ways: the arithmetic check fails, the token refuses,
  or the call commits after the token has paid the caller. The branch for a count of zero,
  which pays nothing, is never taken.
\<close>

theorem claimPrize_division_safe:
  assumes "passesGuards e rid tid s"
  shows "1 \<le> winningTicketCount (winningNumber (rooms s rid))
               (roomTicketsByRound s rid (roundNumber (rooms s rid)))
       \<and> (\<not> paused s \<and> rid < roomCount s \<longrightarrow>
            call (claimPrize e rid tid) s = Inl Panic
            \<or> call (claimPrize e rid tid) s = Inl TransferFailed
            \<or> (\<exists>s'. call (claimPrize e rid tid) s = Inr s'
                  \<and> ledger s' = Transfer (sender e) (payout rid s) # ledger s))"
proof -
  have pos: "1 \<le> winningTicketCount (winningNumber (rooms s rid))
               (roomTicketsByRound s rid (roundNumber (rooms s rid)))"
    using assms by (intro winningTicketCount_pos) (auto simp: passesGuards_def Let_def)
  have "call (claimPrize e rid tid) s = Inl Panic
            \<or> call (claimPrize e rid tid) s = Inl TransferFailed
            \<or> (\<exists>s'. call (claimPrize e rid tid) s = Inr s'
                  \<and> ledger s' = Transfer (sender e) (payout rid s) # ledger s)"
    if "\<not> paused s" "rid < roomCount s"
  proof (cases "call (claimPrize e rid tid) s")
    case (Inr s')
    then show ?thesis using claimPrize_success(1) by blast
  next
    case (Inl err)
    then have "err = Panic \<or> err = TransferFailed"
      using assms pos that
      by (auto simp: claimPrize_def closeWhenAllClaimed_def passesGuards_def tx_defs
            modifier_defs Let_def split: if_splits)
    then show ?thesis using Inl by blast
  qed
  then show ?thesis using pos by blast
qed

text \<open>
  The winning ticket of the four-ticket round passes the guards; one ticket is counted and
  36 are paid.
\<close>

theorem claimPrize_division_safe_witness:
  "winningTicketCount (winningNumber (rooms fourTicketsRevealed 0))
     (roomTicketsByRound fourTicketsRevealed 0 (roundNumber (rooms fourTicketsRevealed 0))) = 1
   \<and> ledger (persisted (claimPrize (caller 4 1010) 0 2) fourTicketsRevealed)
       = Transfer 4 36 # ledger fourTicketsRevealed"
proof -
  have g: "passesGuards (caller 4 1010) 0 2 fourTicketsRevealed"
    by (simp add: passesGuards_def fourTicketsRevealed_def fourTickets_def eval_defs)
  have c: "winningTicketCount (winningNumber (rooms fourTicketsRevealed 0))
     (roomTicketsByRound fourTicketsRevealed 0 (roundNumber (rooms fourTicketsRevealed 0))) = 1"
    by (simp add: fourTicketsRevealed_def fourTickets_def eval_defs)
  have ok: "call (claimPrize (caller 4 1010) 0 2) fourTicketsRevealed
             = Inr (persisted (claimPrize (caller 4 1010) 0 2) fourTicketsRevealed)"
    by (rule call_persisted) (simp add: fourTicketsRevealed_def fourTickets_def eval_defs)
  have st: "\<not> paused fourTicketsRevealed" "0 < roomCount fourTicketsRevealed"
    "payout 0 fourTicketsRevealed = 36"
    by (simp_all add: payout_def fourTicketsRevealed_def fourTickets_def eval_defs)
  show ?thesis
    using claimPrize_division_safe[OF g] c ok st by (auto simp: caller_def)
qed

end
